(* ===== verification/Prelude.thy ===== *)
theory Prelude
  imports Main "HOL-Library.Word" "HOL-Library.Signed_Division"
begin

text \<open>
  Shared vocabulary of the development.

  \<^item> Machine integers. \<open>u32\<close>, \<open>u64\<close> and \<open>u128\<close> are words of that width. \<open>i128\<close> is an
    \<open>int\<close> whose range is written out: \<open>in_i128\<close> is the range, and every arithmetic operation of
    the source is one of the checked, saturating or trapping operations below. The workspace
    builds with \<open>overflow-checks = true\<close> (soroban/Cargo.toml), so a plain \<open>+\<close>, \<open>-\<close> or
    \<open>*\<close> that leaves the range is a trap, never a wrap-around.
  \<^item> Contract code. A Rust function \<open>fn f(env, ..) -> Result<T, E>\<close> that reads and writes the
    contract's storage is a \<open>('s, 'e, 'a) rust\<close>: from a state it is \<open>Done\<close> with a value and a
    state, \<open>Fail\<close> with a typed error and the state reached so far, or \<open>Trap\<close> (a panic or a host
    error). The operator \<open>?\<close> is \<open>and_then\<close>. \<open>invoke\<close> is the boundary of an invocation: an error
    or a trap rolls back every write.
  \<^item> Inversion rules for runs that end in \<open>Done\<close>, collected in \<open>run_iffs\<close>, and the
    evaluation rules collected in \<open>run_simps\<close>.
\<close>

named_theorems run_simps
named_theorems run_iffs

subsection \<open>Machine integers\<close>

type_synonym u32 = "32 word"
type_synonym u64 = "64 word"
type_synonym u128 = "128 word"
type_synonym i128 = int
type_synonym byte = "8 word"
type_synonym bytes = "byte list"

abbreviation i128_max :: int where
  "i128_max \<equiv> 170141183460469231731687303715884105727"

abbreviation i128_min :: int where
  "i128_min \<equiv> - 170141183460469231731687303715884105728"

abbreviation u32_max :: u32 where
  "u32_max \<equiv> 4294967295"

definition in_i128 :: "int \<Rightarrow> bool" where
  "in_i128 x \<longleftrightarrow> i128_min \<le> x \<and> x \<le> i128_max"

lemma in_i128_bounds: "in_i128 x \<longleftrightarrow> - (2 ^ 127) \<le> x \<and> x < 2 ^ 127"
  by (auto simp: in_i128_def)

definition i128_checked_add :: "i128 \<Rightarrow> i128 \<Rightarrow> i128 option" where
  "i128_checked_add a b = (if in_i128 (a + b) then Some (a + b) else None)"

definition i128_checked_sub :: "i128 \<Rightarrow> i128 \<Rightarrow> i128 option" where
  "i128_checked_sub a b = (if in_i128 (a - b) then Some (a - b) else None)"

definition i128_checked_mul :: "i128 \<Rightarrow> i128 \<Rightarrow> i128 option" where
  "i128_checked_mul a b = (if in_i128 (a * b) then Some (a * b) else None)"

text \<open>Rust's \<open>/\<close> truncates towards zero, as \<open>sdiv\<close> does.\<close>

definition i128_checked_div :: "i128 \<Rightarrow> i128 \<Rightarrow> i128 option" where
  "i128_checked_div a b = (if b \<noteq> 0 \<and> in_i128 (a sdiv b) then Some (a sdiv b) else None)"

definition i128_saturate :: "int \<Rightarrow> i128" where
  "i128_saturate x = max i128_min (min i128_max x)"

definition i128_saturating_add :: "i128 \<Rightarrow> i128 \<Rightarrow> i128" where
  "i128_saturating_add a b = i128_saturate (a + b)"

definition i128_saturating_sub :: "i128 \<Rightarrow> i128 \<Rightarrow> i128" where
  "i128_saturating_sub a b = i128_saturate (a - b)"

definition i128_saturating_mul :: "i128 \<Rightarrow> i128 \<Rightarrow> i128" where
  "i128_saturating_mul a b = i128_saturate (a * b)"

definition u32_checked_add :: "u32 \<Rightarrow> u32 \<Rightarrow> u32 option" where
  "u32_checked_add a b = (if unat a + unat b < 2 ^ 32 then Some (a + b) else None)"

definition u32_checked_sub :: "u32 \<Rightarrow> u32 \<Rightarrow> u32 option" where
  "u32_checked_sub a b = (if b \<le> a then Some (a - b) else None)"

definition u32_saturating_add :: "u32 \<Rightarrow> u32 \<Rightarrow> u32" where
  "u32_saturating_add a b = (if unat a + unat b < 2 ^ 32 then a + b else u32_max)"

definition u32_saturating_sub :: "u32 \<Rightarrow> u32 \<Rightarrow> u32" where
  "u32_saturating_sub a b = (if b \<le> a then a - b else 0)"

text \<open>The half-open range \<open>a..b\<close> of a \<open>for\<close> loop over \<open>u32\<close>.\<close>

definition u32_range :: "u32 \<Rightarrow> u32 \<Rightarrow> u32 list" where
  "u32_range a b = map of_nat [unat a..<unat b]"

text \<open>\<open>u32::to_be_bytes\<close>.\<close>

definition u32_to_be_bytes :: "u32 \<Rightarrow> bytes" where
  "u32_to_be_bytes x = [ucast (drop_bit 24 x), ucast (drop_bit 16 x), ucast (drop_bit 8 x), ucast x]"

text \<open>\<open>Vec::len\<close>: the length of a vector is a \<open>u32\<close>.\<close>

definition vec_len :: "'a list \<Rightarrow> u32" where
  "vec_len xs = of_nat (length xs)"

lemma i128_saturate_id [simp]: "in_i128 x \<Longrightarrow> i128_saturate x = x"
  by (auto simp: i128_saturate_def in_i128_def)

lemma in_i128_saturate [simp]: "in_i128 (i128_saturate x)"
  by (auto simp: i128_saturate_def in_i128_def)

lemma in_i128_0 [simp]: "in_i128 0"
  by (simp add: in_i128_def)

lemma in_i128_sub_nonneg [simp]:
  "0 \<le> a \<Longrightarrow> 0 \<le> b \<Longrightarrow> in_i128 a \<Longrightarrow> in_i128 b \<Longrightarrow> in_i128 (a - b)"
  by (auto simp: in_i128_def)

lemma sdiv_nonneg: "0 \<le> (a::int) \<Longrightarrow> 0 < b \<Longrightarrow> a sdiv b = a div b"
  by (cases "a = 0") (auto simp: signed_divide_int_def sgn_if)

text \<open>A quotient is the floor of the fraction.\<close>

lemma div_floor:
  fixes p d :: int
  assumes "0 < d"
  shows "p div d * d \<le> p \<and> p < (p div d + 1) * d"
proof -
  have "p = p div d * d + p mod d" by simp
  moreover have "0 \<le> p mod d" "p mod d < d" using assms by simp_all
  ultimately show ?thesis unfolding distrib_right by linarith
qed

lemma div_le_iff:
  fixes p d m :: int
  assumes "0 < d"
  shows "p div d \<le> m \<longleftrightarrow> p < (m + 1) * d"
proof
  assume "p div d \<le> m"
  then have "(p div d + 1) * d \<le> (m + 1) * d"
    using assms by (intro mult_right_mono) auto
  with div_floor [OF assms, of p] show "p < (m + 1) * d" by linarith
next
  assume less: "p < (m + 1) * d"
  show "p div d \<le> m"
  proof (rule ccontr)
    assume "\<not> p div d \<le> m"
    then have "(m + 1) * d \<le> p div d * d"
      using assms by (intro mult_right_mono) auto
    with div_floor [OF assms, of p] less show False by linarith
  qed
qed

text \<open>Rounding up is rounding down plus one on a remainder.\<close>

lemma div_ceil:
  fixes a b :: int
  assumes "0 < b"
  shows "(a + b - 1) div b = a div b + (if 0 < a mod b then 1 else 0)"
proof (cases "0 < a mod b")
  case True
  have eq: "a + b - 1 = (a mod b - 1) + (a div b + 1) * b"
    by (simp add: algebra_simps)
  have "(a + b - 1) div b = (a div b + 1) + (a mod b - 1) div b"
    unfolding eq using assms by (intro div_mult_self1) auto
  moreover have "(a mod b - 1) div b = 0"
    using True pos_mod_bound [OF assms, of a] by (simp add: div_pos_pos_trivial)
  ultimately show ?thesis
    using True by simp
next
  case False
  then have "a mod b = 0"
    using pos_mod_sign [OF assms, of a] by simp
  with div_mult_mod_eq [of a b] have eq: "a + b - 1 = (b - 1) + a div b * b"
    by simp
  have "(a + b - 1) div b = a div b + (b - 1) div b"
    unfolding eq using assms by (intro div_mult_self1) auto
  with False assms show ?thesis
    by (simp add: div_pos_pos_trivial)
qed

lemma uint_u32_less: "uint (x :: u32) < 4294967296"
  using uint_lt2p [of x] by simp

lemma unat_u32_less: "unat (x :: u32) < 4294967296"
  using unsigned_less [of x, where ?'a = nat] by simp

lemma unat_u32_Suc: "x < e \<Longrightarrow> unat (x + 1) = Suc (unat (x :: u32))"
  using unat_u32_less [of e] by (simp add: unat_word_ariths word_less_nat_alt)

lemma uint_u32_bounds [simp]: "0 \<le> uint (x :: u32)" "uint (x :: u32) \<le> 4294967295"
  using uint_u32_less [of x] by auto

lemma in_i128_u32 [simp]: "in_i128 (uint (x :: u32))"
  using uint_u32_bounds [of x] unfolding in_i128_def by linarith

lemma u32_checked_add_1_Some:
  "u32_checked_add a 1 = Some b \<Longrightarrow> unat b = Suc (unat a) \<and> b = a + 1"
  by (auto simp: u32_checked_add_def unat_word_ariths split: if_splits)

lemma u32_checked_add_1_None: "u32_checked_add a 1 = None \<longleftrightarrow> a = u32_max"
proof -
  have "a = u32_max \<longleftrightarrow> unat a = unat u32_max"
    by (simp add: word_unat_eq_iff)
  moreover have "unat a < 4294967296"
    by (rule unat_u32_less)
  ultimately show ?thesis
    by (auto simp: u32_checked_add_def)
qed

lemma unat_u32_saturating_add:
  "unat (u32_saturating_add a b) = min (unat a + unat b) 4294967295"
  by (auto simp: u32_saturating_add_def unat_word_ariths)

lemma in_u32_range [simp]: "x \<in> set (u32_range a b) \<longleftrightarrow> a \<le> x \<and> x < b"
proof
  assume "x \<in> set (u32_range a b)"
  then obtain n where n: "x = of_nat n" "unat a \<le> n" "n < unat b"
    by (auto simp: u32_range_def)
  with unat_u32_less [of b] have "unat x = n"
    by (simp add: unat_of_nat)
  with n show "a \<le> x \<and> x < b"
    by (simp add: word_le_nat_alt word_less_nat_alt)
next
  assume "a \<le> x \<and> x < b"
  then have "unat x \<in> set [unat a..<unat b]"
    by (simp add: word_le_nat_alt word_less_nat_alt)
  moreover have "x = of_nat (unat x)"
    by simp
  ultimately show "x \<in> set (u32_range a b)"
    unfolding u32_range_def by (metis image_eqI list.set_map)
qed

lemma map_unat_u32_range: "map unat (u32_range a b) = [unat a..<unat b]"
proof -
  have "unat (of_nat n :: u32) = n" if "n < unat b" for n
    using that unat_u32_less [of b] by (simp add: unat_of_nat)
  then show ?thesis
    by (auto simp: u32_range_def intro: map_idI)
qed

lemma distinct_u32_range [simp]: "distinct (u32_range a b)"
proof -
  have "distinct (map unat (u32_range a b))"
    by (simp add: map_unat_u32_range)
  then show ?thesis
    by (simp add: distinct_map)
qed

lemma u32_range_empty [simp]: "b \<le> a \<Longrightarrow> u32_range a b = []"
  by (simp add: u32_range_def word_le_nat_alt)

lemma u32_range_append:
  "a \<le> b \<Longrightarrow> b \<le> c \<Longrightarrow> u32_range a c = u32_range a b @ u32_range b c"
  unfolding u32_range_def word_le_nat_alt
  by (metis le_Suc_ex map_append upt_add_eq_append)

lemma length_u32_range [simp]: "length (u32_range a b) = unat b - unat a"
  by (simp add: u32_range_def)

subsection \<open>Contract code\<close>

datatype ('e, 'a, 's) outcome = Done 'a 's | Fail 'e 's | Trap

type_synonym ('s, 'e, 'a) rust = "'s \<Rightarrow> ('e, 'a, 's) outcome"

definition ok :: "'a \<Rightarrow> ('s, 'e, 'a) rust" where
  "ok a = (\<lambda>s. Done a s)"

definition err :: "'e \<Rightarrow> ('s, 'e, 'a) rust" where
  "err e = (\<lambda>s. Fail e s)"

definition trap :: "('s, 'e, 'a) rust" where
  "trap = (\<lambda>s. Trap)"

definition and_then :: "('s, 'e, 'a) rust \<Rightarrow> ('a \<Rightarrow> ('s, 'e, 'b) rust) \<Rightarrow> ('s, 'e, 'b) rust" where
  "and_then m f = (\<lambda>s. case m s of Done a s' \<Rightarrow> f a s' | Fail e s' \<Rightarrow> Fail e s' | Trap \<Rightarrow> Trap)"

definition gets :: "('s \<Rightarrow> 'a) \<Rightarrow> ('s, 'e, 'a) rust" where
  "gets f = (\<lambda>s. Done (f s) s)"

definition modify :: "('s \<Rightarrow> 's) \<Rightarrow> ('s, 'e, unit) rust" where
  "modify f = (\<lambda>s. Done () (f s))"

text \<open>\<open>Option::unwrap\<close>, \<open>Option::ok_or\<close>, \<open>assert!\<close>.\<close>

definition unwrap :: "'a option \<Rightarrow> ('s, 'e, 'a) rust" where
  "unwrap x = (case x of None \<Rightarrow> trap | Some a \<Rightarrow> ok a)"

definition ok_or :: "'e \<Rightarrow> 'a option \<Rightarrow> ('s, 'e, 'a) rust" where
  "ok_or e x = (case x of None \<Rightarrow> err e | Some a \<Rightarrow> ok a)"

definition unwrap_or :: "'a \<Rightarrow> 'a option \<Rightarrow> 'a" where
  "unwrap_or d x = (case x of None \<Rightarrow> d | Some a \<Rightarrow> a)"

definition assert_that :: "bool \<Rightarrow> ('s, 'e, unit) rust" where
  "assert_that b = (if b then ok () else trap)"

definition ensure :: "bool \<Rightarrow> 'e \<Rightarrow> ('s, 'e, unit) rust" where
  "ensure b e = (if b then ok () else err e)"

text \<open>\<open>let _ = f(..)\<close>: the result is dropped, whatever it is; the writes stay.\<close>

definition ignore_result :: "('s, 'e, 'a) rust \<Rightarrow> ('s, 'e, unit) rust" where
  "ignore_result m = (\<lambda>s. case m s of Done a s' \<Rightarrow> Done () s' | Fail e s' \<Rightarrow> Done () s' | Trap \<Rightarrow> Trap)"

text \<open>The result of a call, wrapped by \<open>k\<close>.\<close>

definition returns :: "('a \<Rightarrow> 'b) \<Rightarrow> ('s, 'e, 'a) rust \<Rightarrow> ('s, 'e, 'b) rust" where
  "returns k m = and_then m (\<lambda>x. ok (k x))"

text \<open>A \<open>for\<close> loop over a list with an accumulator, each round a function that may fail.\<close>

fun for_each :: "'x list \<Rightarrow> 'a \<Rightarrow> ('x \<Rightarrow> 'a \<Rightarrow> ('s, 'e, 'a) rust) \<Rightarrow> ('s, 'e, 'a) rust" where
  "for_each [] acc body = ok acc"
| "for_each (x # xs) acc body = and_then (body x acc) (\<lambda>acc'. for_each xs acc' body)"

datatype ('e, 'a) reply = Returned 'a | Failed 'e | Trapped

definition invoke :: "('s, 'e, 'a) rust \<Rightarrow> 's \<Rightarrow> ('e, 'a) reply \<times> 's" where
  "invoke m s = (case m s of Done a s' \<Rightarrow> (Returned a, s') | Fail e s' \<Rightarrow> (Failed e, s) | Trap \<Rightarrow> (Trapped, s))"

text \<open>Trapping arithmetic: \<open>+\<close>, \<open>-\<close> under \<open>overflow-checks\<close>.\<close>

definition i128_add :: "i128 \<Rightarrow> i128 \<Rightarrow> ('s, 'e, i128) rust" where
  "i128_add a b = unwrap (i128_checked_add a b)"

definition i128_sub :: "i128 \<Rightarrow> i128 \<Rightarrow> ('s, 'e, i128) rust" where
  "i128_sub a b = unwrap (i128_checked_sub a b)"

definition u32_add :: "u32 \<Rightarrow> u32 \<Rightarrow> ('s, 'e, u32) rust" where
  "u32_add a b = unwrap (u32_checked_add a b)"

definition u32_sub :: "u32 \<Rightarrow> u32 \<Rightarrow> ('s, 'e, u32) rust" where
  "u32_sub a b = unwrap (u32_checked_sub a b)"

lemma ok_run [run_simps]: "ok a s = Done a s"
  by (simp add: ok_def)

lemma err_run [run_simps]: "err e s = Fail e s"
  by (simp add: err_def)

lemma trap_run [run_simps]: "trap s = Trap"
  by (simp add: trap_def)

lemma gets_run [run_simps]: "gets f s = Done (f s) s"
  by (simp add: gets_def)

lemma modify_run [run_simps]: "modify f s = Done () (f s)"
  by (simp add: modify_def)

lemma and_then_run [run_simps]:
  "and_then m f s = (case m s of Done a s' \<Rightarrow> f a s' | Fail e s' \<Rightarrow> Fail e s' | Trap \<Rightarrow> Trap)"
  by (simp add: and_then_def)

lemma unwrap_run [run_simps]:
  "unwrap (Some a) s = Done a s" "unwrap None s = Trap"
  by (simp_all add: unwrap_def run_simps)

lemma ok_or_run [run_simps]:
  "ok_or e (Some a) s = Done a s" "ok_or e None s = Fail e s"
  by (simp_all add: ok_or_def run_simps)

lemma assert_that_run [run_simps]: "assert_that b s = (if b then Done () s else Trap)"
  by (simp add: assert_that_def run_simps)

lemma ensure_run [run_simps]: "ensure b e s = (if b then Done () s else Fail e s)"
  by (simp add: ensure_def run_simps)

lemma ignore_result_run [run_simps]:
  "ignore_result m s = (case m s of Done a s' \<Rightarrow> Done () s' | Fail e s' \<Rightarrow> Done () s' | Trap \<Rightarrow> Trap)"
  by (simp add: ignore_result_def)

lemma unwrap_or_simps [simp]: "unwrap_or d None = d" "unwrap_or d (Some a) = a"
  by (simp_all add: unwrap_or_def)

lemma arith_run [run_simps]:
  "i128_add a b s = (if in_i128 (a + b) then Done (a + b) s else Trap)"
  "i128_sub a b s = (if in_i128 (a - b) then Done (a - b) s else Trap)"
  "u32_add c d s = (if unat c + unat d < 2 ^ 32 then Done (c + d) s else Trap)"
  "u32_sub c d s = (if d \<le> c then Done (c - d) s else Trap)"
  unfolding i128_add_def i128_sub_def u32_add_def u32_sub_def i128_checked_add_def
    i128_checked_sub_def u32_checked_add_def u32_checked_sub_def
  by (simp_all only: unwrap_run split: if_split) auto

subsubsection \<open>Inversion of successful runs\<close>

lemma and_then_Done [run_iffs]:
  "and_then m f s = Done b t \<longleftrightarrow> (\<exists>a s'. m s = Done a s' \<and> f a s' = Done b t)"
  by (auto simp: and_then_def split: outcome.splits)

lemma ok_Done [run_iffs]: "ok a s = Done b t \<longleftrightarrow> b = a \<and> t = s"
  by (auto simp: ok_def)

lemma err_Done [run_iffs]: "\<not> err e s = Done b t"
  by (simp add: err_def)

lemma trap_Done [run_iffs]: "\<not> trap s = Done b t"
  by (simp add: trap_def)

lemma gets_Done [run_iffs]: "gets f s = Done b t \<longleftrightarrow> b = f s \<and> t = s"
  unfolding gets_def outcome.inject by blast

lemma modify_Done [run_iffs]: "modify f s = Done b t \<longleftrightarrow> t = f s"
  by (auto simp: modify_def)

lemma unwrap_Done [run_iffs]: "unwrap x s = Done b t \<longleftrightarrow> x = Some b \<and> t = s"
  by (auto simp: unwrap_def ok_def trap_def split: option.splits)

lemma ok_or_Done [run_iffs]: "ok_or e x s = Done b t \<longleftrightarrow> x = Some b \<and> t = s"
  by (auto simp: ok_or_def ok_def err_def split: option.splits)

lemma assert_that_Done [run_iffs]: "assert_that p s = Done b t \<longleftrightarrow> p \<and> t = s"
  by (auto simp: assert_that_def ok_def trap_def)

lemma ensure_Done [run_iffs]: "ensure p e s = Done b t \<longleftrightarrow> p \<and> t = s"
  by (auto simp: ensure_def ok_def err_def)

lemma arith_Done [run_iffs]:
  "i128_add x y s = Done z t \<longleftrightarrow> in_i128 (x + y) \<and> z = x + y \<and> t = s"
  "i128_sub x y s = Done z t \<longleftrightarrow> in_i128 (x - y) \<and> z = x - y \<and> t = s"
  "u32_add c d s = Done v t \<longleftrightarrow> u32_checked_add c d = Some v \<and> t = s"
  "u32_sub c d s = Done v t \<longleftrightarrow> u32_checked_sub c d = Some v \<and> t = s"
  by (auto simp: i128_add_def i128_sub_def u32_add_def u32_sub_def i128_checked_add_def
      i128_checked_sub_def unwrap_Done)

lemma if_Done [run_iffs]:
  "(if c then m else n) s = Done b t \<longleftrightarrow> (if c then m s = Done b t else n s = Done b t)"
  by simp

lemma ignore_result_Done [run_iffs]:
  "ignore_result m s = Done u t \<longleftrightarrow> (\<exists>a. m s = Done a t) \<or> (\<exists>e. m s = Fail e t)"
  by (auto simp: ignore_result_def split: outcome.splits)

lemma returns_run [run_simps]:
  "returns k m s = (case m s of Done a t \<Rightarrow> Done (k a) t | Fail e t \<Rightarrow> Fail e t | Trap \<Rightarrow> Trap)"
  by (simp add: returns_def run_simps split: outcome.split)

lemma returns_Done [run_iffs]: "returns k m s = Done v t \<longleftrightarrow> (\<exists>a. m s = Done a t \<and> v = k a)"
  by (auto simp: returns_def run_iffs)

lemma returns_Trap: "returns k m s = Trap \<longleftrightarrow> m s = Trap"
  by (cases "m s") (simp_all add: run_simps)

lemma case_option_Done [run_iffs]:
  "(case x of None \<Rightarrow> m | Some y \<Rightarrow> k y) s = Done b t \<longleftrightarrow>
     (x = None \<and> m s = Done b t) \<or> (\<exists>y. x = Some y \<and> k y s = Done b t)"
  by (cases x) auto

lemma invoke_cases:
  obtains (returned) a s' where "m s = Done a s'" "invoke m s = (Returned a, s')"
  | (failed) e s' where "m s = Fail e s'" "invoke m s = (Failed e, s)"
  | (trapped) "m s = Trap" "invoke m s = (Trapped, s)"
  by (cases "m s") (auto simp: invoke_def)

text \<open>What every successful run keeps, an invocation keeps: the other outcomes roll back.\<close>

lemma invoke_preserves:
  assumes "P s" and "\<And>a t. m s = Done a t \<Longrightarrow> P t"
  shows "P (snd (invoke m s))"
  by (cases m s rule: invoke_cases) (use assms in auto)

subsubsection \<open>Loops\<close>

lemma for_each_invariant:
  assumes "for_each xs acc body s = Done b t" and "P s acc"
    and "\<And>x a b s t. x \<in> set xs \<Longrightarrow> body x a s = Done b t \<Longrightarrow> P s a \<Longrightarrow> P t b"
  shows "P t b"
  using assms
proof (induction xs arbitrary: acc s)
  case Nil
  then show ?case by (auto simp: ok_def)
next
  case (Cons x xs)
  from Cons.prems(1) obtain a s' where run: "body x acc s = Done a s'" and
    rest: "for_each xs a body s' = Done b t"
    by (auto simp: run_iffs)
  from Cons.prems(3) [OF _ run Cons.prems(2)] have "P s' a" by simp
  from rest this show ?case
    by (rule Cons.IH) (rule Cons.prems(3), simp_all)
qed

subsubsection \<open>What every run keeps\<close>

text \<open>
  \<open>keeps R m\<close>: a successful run of \<open>m\<close> relates the state before to the state after by \<open>R\<close>. For a
  reflexive and transitive \<open>R\<close> this composes along the code, so that a frame condition needs an
  argument for the writes only.
\<close>

definition keeps :: "('s \<Rightarrow> 's \<Rightarrow> bool) \<Rightarrow> ('s, 'e, 'a) rust \<Rightarrow> bool" where
  "keeps R m \<longleftrightarrow> (\<forall>s a t. m s = Done a t \<longrightarrow> R s t)"

lemma keepsI: "(\<And>s a t. m s = Done a t \<Longrightarrow> R s t) \<Longrightarrow> keeps R m"
  by (simp add: keeps_def)

lemma keepsD: "keeps R m \<Longrightarrow> m s = Done a t \<Longrightarrow> R s t"
  by (auto simp: keeps_def)

lemma keeps_modify: "(\<And>s. R s (f s)) \<Longrightarrow> keeps R (modify f)"
  by (simp add: keeps_def modify_def)

locale frame_relation =
  fixes R :: "'s \<Rightarrow> 's \<Rightarrow> bool"
  assumes frame_refl: "R s s" and frame_trans: "R s t \<Longrightarrow> R t u \<Longrightarrow> R s u"
begin

lemma keeps_basic:
  "keeps R (ok a)" "keeps R (err e)" "keeps R trap" "keeps R (gets f)" "keeps R (unwrap x)"
  "keeps R (ok_or e x)" "keeps R (assert_that b)" "keeps R (ensure b e)" "keeps R (u32_add c d)"
  by (auto simp: keeps_def run_iffs frame_refl)

lemma keeps_and_then: "keeps R m \<Longrightarrow> (\<And>a. keeps R (f a)) \<Longrightarrow> keeps R (and_then m f)"
  by (rule keepsI) (auto simp: and_then_Done dest: keepsD intro: frame_trans)

lemma keeps_for_each: "(\<And>x a. keeps R (body x a)) \<Longrightarrow> keeps R (for_each xs acc body)"
  by (induction xs arbitrary: acc) (auto intro: keeps_basic keeps_and_then)

lemma keeps_ignore:
  "keeps R m \<Longrightarrow> (\<And>s e t. m s = Fail e t \<Longrightarrow> R s t) \<Longrightarrow> keeps R (ignore_result m)"
  by (rule keepsI) (auto simp: ignore_result_def dest: keepsD split: outcome.splits)

lemma keeps_cases:
  "(b \<Longrightarrow> keeps R m) \<Longrightarrow> (\<not> b \<Longrightarrow> keeps R n) \<Longrightarrow> keeps R (if b then m else n)"
  "keeps R (g x) \<Longrightarrow> keeps R (let y = x in g y)"
  by simp_all

lemma keeps_option: "keeps R m \<Longrightarrow> (\<And>x. keeps R (k x)) \<Longrightarrow> keeps R (case y of None \<Rightarrow> m | Some x \<Rightarrow> k x)"
  by (simp split: option.split)

lemma keeps_pair: "(\<And>x y. keeps R (k x y)) \<Longrightarrow> keeps R (case p of (x, y) \<Rightarrow> k x y)"
  by (simp split: prod.split)

lemmas keeps_rules = keeps_basic keeps_and_then keeps_for_each keeps_cases keeps_option keeps_pair

end

end
