(* ===== verification/Soroban.thy ===== *)
theory Soroban
  imports Prelude
begin

text \<open>
  What the contracts see of the Soroban host and of other contracts. None of that code is in the
  repository, so all of it is a parameter:

  \<^item> \<open>'w\<close> is the state of everything outside the contract under study (token balances, deployed
    pools, the network). A contract reads and changes it only by the calls of \<open>'w host\<close>.
  \<^item> \<open>'w host\<close> collects those calls. A \<open>try_\<close> field is \<open>try_invoke_contract\<close>: a value
    stands for \<open>Ok(Ok(v))\<close> and \<open>None\<close> (or \<open>False\<close>) for every other outcome. A field with result
    \<open>option\<close> and no \<open>try_\<close> is \<open>invoke_contract\<close>, a token client call or a deployment, where
    \<open>None\<close> traps the caller.
  \<^item> \<open>'w env\<close> is one invocation: the host, the ledger sequence, the contract's own address and the
    addresses whose authorization the transaction carries (\<open>require_auth\<close>).

  Calls return a new outside state, never a new state of the calling contract: the host refuses
  re-entry into a contract that is on the call stack (\<open>ContractReentryMode\<close> defaults to
  \<open>Prohibited\<close>, SECURITY_FIXES.md).

  An \<open>Address\<close> is its strkey text, and \<open>BytesN<32>\<close> is a list of bytes.
\<close>

type_synonym address = string

definition zero_address :: address where
  "zero_address = ''GAAAAAAAAAAAAAAAAAAAAAAAAAAAAAAAAAAAAAAAAAAAAAAAAAAAAWHF''"

text \<open>\<open>BytesN::from_array(&env, &[0u8; 32])\<close>.\<close>

definition zero_hash :: bytes where
  "zero_hash = replicate 32 0"

text \<open>The argument vector of the pool's \<open>initialize\<close>, in the order the factory builds it.\<close>

record pool_init_args =
  ia_admin :: address
  ia_asset :: address
  ia_global_multiplier :: u32
  ia_credit_rate :: i128
  ia_min_lock_period :: u32
  ia_min_stake_amount :: i128

record 'w host =
  extend_ttl :: "u32 \<Rightarrow> u32 \<Rightarrow> u32 \<Rightarrow> nat \<Rightarrow> nat"
  min_persistent_ttl :: nat
  token_balance :: "'w \<Rightarrow> address \<Rightarrow> address \<Rightarrow> (i128 \<times> 'w) option"
  token_transfer :: "'w \<Rightarrow> address \<Rightarrow> address \<Rightarrow> address \<Rightarrow> i128 \<Rightarrow> 'w option"
  try_symbol :: "'w \<Rightarrow> address \<Rightarrow> bool \<times> 'w"
  try_balance :: "'w \<Rightarrow> address \<Rightarrow> address \<Rightarrow> i128 option \<times> 'w"
  deploy_v2 :: "'w \<Rightarrow> address \<Rightarrow> bytes \<Rightarrow> bytes \<Rightarrow> (address \<times> 'w) option"
  pool_initialize :: "'w \<Rightarrow> address \<Rightarrow> pool_init_args \<Rightarrow> 'w option"
  try_total_staked :: "'w \<Rightarrow> address \<Rightarrow> i128 option \<times> 'w"
  try_is_paused :: "'w \<Rightarrow> address \<Rightarrow> bool option \<times> 'w"
  try_pool_admin :: "'w \<Rightarrow> address \<Rightarrow> address option \<times> 'w"
  try_upgrade :: "'w \<Rightarrow> address \<Rightarrow> bytes \<Rightarrow> bool \<times> 'w"

record 'w env =
  host :: "'w host"
  sequence :: u32
  current_contract :: address
  authorized :: "address \<Rightarrow> bool"

text \<open>\<open>Address::require_auth\<close>: traps unless the transaction carries the authorization.\<close>

definition require_auth :: "'w env \<Rightarrow> address \<Rightarrow> ('s, 'e, unit) rust" where
  "require_auth env a = (if authorized env a then ok () else trap)"

lemma require_auth_run [run_simps]:
  "require_auth env a s = (if authorized env a then Done () s else Trap)"
  by (simp add: require_auth_def run_simps)

lemma require_auth_Done [run_iffs]: "require_auth env a s = Done b t \<longleftrightarrow> authorized env a \<and> t = s"
  by (auto simp: require_auth_def run_iffs)

subsection \<open>Time to live\<close>

text \<open>
  The documented contract of \<open>extend_ttl(threshold, extend_to)\<close>: the live-until ledger of an
  entry never moves back, and an entry with fewer than \<open>threshold\<close> ledgers left is moved to
  \<open>extend_to\<close> ledgers from now.
\<close>

definition ttl_host :: "'w host \<Rightarrow> bool" where
  "ttl_host h \<longleftrightarrow> (\<forall>threshold extend_to now live.
     live \<le> extend_ttl h threshold extend_to now live \<and>
     (live < unat now + unat threshold \<longrightarrow>
        unat now + unat extend_to \<le> extend_ttl h threshold extend_to now live))"

text \<open>A function with that contract, for concrete hosts.\<close>

definition extend_ttl_max :: "u32 \<Rightarrow> u32 \<Rightarrow> u32 \<Rightarrow> nat \<Rightarrow> nat" where
  "extend_ttl_max threshold extend_to now live =
     (if live < unat now + unat threshold then max live (unat now + unat extend_to) else live)"

lemma ttl_host_max: "extend_ttl h = extend_ttl_max \<Longrightarrow> ttl_host h"
  by (simp add: ttl_host_def extend_ttl_max_def)

subsection \<open>The token interface\<close>

text \<open>
  What the vesting wallet relies on of the token it holds, a SEP-41 token, in the states that
  satisfy the token's own invariant \<open>invar\<close>: balances are \<open>i128\<close>, \<open>balance\<close> answers with the
  account's balance and changes no balance, and a \<open>transfer\<close> that returns moves exactly \<open>amount\<close>
  from one account to the other and touches no third account. \<open>bal\<close> is the ledger of the token.
\<close>

locale sep41_token =
  fixes invar :: "'w \<Rightarrow> bool"
    and bal :: "'w \<Rightarrow> address \<Rightarrow> i128"
    and balance :: "'w \<Rightarrow> address \<Rightarrow> (i128 \<times> 'w) option"
    and transfer :: "'w \<Rightarrow> address \<Rightarrow> address \<Rightarrow> i128 \<Rightarrow> 'w option"
  assumes bal_range: "invar w \<Longrightarrow> in_i128 (bal w a)"
    and balance_returns: "invar w \<Longrightarrow>
      \<exists>w'. balance w a = Some (bal w a, w') \<and> bal w' = bal w \<and> invar w'"
    and transfer_invar: "invar w \<Longrightarrow> transfer w from to amount = Some w' \<Longrightarrow> invar w'"
    and transfer_moves: "invar w \<Longrightarrow> transfer w from to amount = Some w' \<Longrightarrow> from \<noteq> to \<Longrightarrow>
      bal w' from = bal w from - amount \<and> bal w' to = bal w to + amount"
    and transfer_self: "invar w \<Longrightarrow> transfer w a a amount = Some w' \<Longrightarrow> bal w' a = bal w a"
    and transfer_others: "invar w \<Longrightarrow> transfer w from to amount = Some w' \<Longrightarrow>
      c \<noteq> from \<Longrightarrow> c \<noteq> to \<Longrightarrow> bal w' c = bal w c"
begin

lemma balance_Some:
  assumes "invar w" and "balance w a = Some (x, w')"
  shows "x = bal w a \<and> bal w' = bal w \<and> invar w'"
  using balance_returns [OF assms(1), of a] assms(2) by auto

text \<open>Paying out costs the payer at most the amount, whoever the payee is.\<close>

lemma transfer_out:
  assumes "invar w" and "transfer w self to amount = Some w'" and "0 \<le> amount"
  shows "bal w self - amount \<le> bal w' self"
  using transfer_moves [OF assms(1,2)] transfer_self [OF assms(1), of self amount w'] assms(2,3)
  by (cases "self = to") auto

lemma transfer_in:
  assumes "invar w" and "transfer w from self amount = Some w'" and "from \<noteq> self"
  shows "bal w' self = bal w self + amount"
  using transfer_moves [OF assms] by simp

end

text \<open>
  A token that also honours every transfer its sender can pay for, as long as the payee's balance
  stays in range.
\<close>

locale paying_token = sep41_token +
  assumes transfer_pays: "invar w \<Longrightarrow> 0 \<le> amount \<Longrightarrow> amount \<le> bal w from \<Longrightarrow>
      in_i128 (bal w to + amount) \<Longrightarrow> \<exists>w'. transfer w from to amount = Some w'"
begin

lemma transfer_pays_out:
  assumes "invar w" and "0 \<le> amount" and "amount \<le> bal w self"
    and "in_i128 (bal w to + amount)" and "self \<noteq> to"
  shows "\<exists>w'. transfer w self to amount = Some w' \<and> bal w' to = bal w to + amount \<and>
    bal w' self = bal w self - amount"
  using transfer_pays [OF assms(1-4)] transfer_moves [OF assms(1) _ assms(5)] by blast

end

end
