(* ===== verification/Vesting.thy ===== *)
theory Vesting
  imports Soroban
begin

text \<open>
  The vesting wallet: soroban/contracts/vesting-wallet/src/types.rs and lib.rs. The record
  \<open>'w wallet\<close> is the contract's instance storage, one field \<open>vk_K\<close> per \<open>DataKey::K\<close> (\<open>None\<close>: the
  key is absent), the live-until ledger of the instance, the events published so far and the
  outside state. One definition per function of lib.rs, in its order.
\<close>

subsection \<open>Types\<close>

datatype VestingError =
    VAlreadyInitialized | VNotInitialized | NotRevocable | AlreadyRevoked | VUnauthorized
  | TotalAmountTooLarge | ArithmeticOverflow | InvalidInput | InsufficientBalance

fun VestingError_code :: "VestingError \<Rightarrow> nat" where
  "VestingError_code VAlreadyInitialized = 1"
| "VestingError_code VNotInitialized = 2"
| "VestingError_code NotRevocable = 3"
| "VestingError_code AlreadyRevoked = 4"
| "VestingError_code VUnauthorized = 5"
| "VestingError_code TotalAmountTooLarge = 6"
| "VestingError_code ArithmeticOverflow = 7"
| "VestingError_code InvalidInput = 8"
| "VestingError_code InsufficientBalance = 9"

text \<open>The events, topics \<open>(vest, init)\<close>, \<open>(vest, released)\<close>, \<open>(vest, revoked)\<close>, \<open>(vest, adm_xfr)\<close>.\<close>

datatype vesting_event =
    VestInit address address i128 u32 u32
  | VestReleased address i128 i128
  | VestRevoked address address i128 i128
  | VestAdmXfr address address

text \<open>Declared by types.rs; \<open>transfer_admin\<close> publishes the pair itself.\<close>

record AdminTransferred =
  at_old_admin :: address
  at_new_admin :: address

record VestingSchedule =
  vs_beneficiary :: address
  vs_token :: address
  vs_total_amount :: i128
  vs_start_ledger :: u32
  vs_cliff_ledger :: u32
  vs_end_ledger :: u32
  vs_revocable :: bool

record VestingOverview =
  vo_beneficiary :: address
  vo_token :: address
  vo_total_amount :: i128
  vo_start_ledger :: u32
  vo_cliff_ledger :: u32
  vo_end_ledger :: u32
  vo_revocable :: bool
  vo_revoked :: bool
  vo_vested_amount :: i128
  vo_released_amount :: i128
  vo_releasable_amount :: i128

record 'w wallet =
  vk_Beneficiary :: "address option"
  vk_Token :: "address option"
  vk_TotalAmount :: "i128 option"
  vk_StartLedger :: "u32 option"
  vk_CliffLedger :: "u32 option"
  vk_EndLedger :: "u32 option"
  vk_ReleasedAmount :: "i128 option"
  vk_Admin :: "address option"
  vk_Funder :: "address option"
  vk_Revocable :: "bool option"
  vk_Revoked :: "bool option"
  vk_RevokedVested :: "i128 option"
  vk_ReleaseCount :: "u32 option"
  v_instance_live_until :: nat
  v_events :: "vesting_event list"
  v_world :: 'w

text \<open>A wallet contract that has been deployed and not initialized.\<close>

definition empty_wallet :: "nat \<Rightarrow> 'w \<Rightarrow> 'w wallet" where
  "empty_wallet live w = \<lparr>vk_Beneficiary = None, vk_Token = None, vk_TotalAmount = None,
     vk_StartLedger = None, vk_CliffLedger = None, vk_EndLedger = None, vk_ReleasedAmount = None,
     vk_Admin = None, vk_Funder = None, vk_Revocable = None, vk_Revoked = None,
     vk_RevokedVested = None, vk_ReleaseCount = None, v_instance_live_until = live,
     v_events = [], v_world = w\<rparr>"

type_synonym ('w, 'a) vesting = "('w wallet, VestingError, 'a) rust"

subsection \<open>Constants\<close>

definition V_TTL_THRESHOLD :: u32 where "V_TTL_THRESHOLD = 518400"
definition V_TTL_EXTEND_TO :: u32 where "V_TTL_EXTEND_TO = 1036800"

definition MAX_TOTAL_AMOUNT :: i128 where
  "MAX_TOTAL_AMOUNT = i128_max sdiv 4294967295"

subsection \<open>Storage helpers\<close>

definition v_bump_instance :: "'w env \<Rightarrow> ('w, unit) vesting" where
  "v_bump_instance env = modify (\<lambda>s. s\<lparr>v_instance_live_until :=
     extend_ttl (host env) V_TTL_THRESHOLD V_TTL_EXTEND_TO (sequence env) (v_instance_live_until s)\<rparr>)"

definition v_require_initialized :: "('w, unit) vesting" where
  "v_require_initialized s =
     (if vk_Beneficiary s = None then err VNotInitialized s else ok () s)"

definition get_beneficiary :: "('w, address) vesting" where
  "get_beneficiary = and_then (gets vk_Beneficiary) unwrap"

definition get_token :: "('w, address) vesting" where
  "get_token = and_then (gets vk_Token) unwrap"

definition get_total_amount :: "('w, i128) vesting" where
  "get_total_amount = and_then (gets vk_TotalAmount) unwrap"

definition get_start_ledger :: "('w, u32) vesting" where
  "get_start_ledger = and_then (gets vk_StartLedger) unwrap"

definition get_cliff_ledger :: "('w, u32) vesting" where
  "get_cliff_ledger = and_then (gets vk_CliffLedger) unwrap"

definition get_end_ledger :: "('w, u32) vesting" where
  "get_end_ledger = and_then (gets vk_EndLedger) unwrap"

definition get_released :: "('w, i128) vesting" where
  "get_released = gets (\<lambda>s. unwrap_or 0 (vk_ReleasedAmount s))"

definition get_admin :: "('w, address) vesting" where
  "get_admin = and_then (gets vk_Admin) unwrap"

definition is_revocable :: "('w, bool) vesting" where
  "is_revocable = gets (\<lambda>s. unwrap_or False (vk_Revocable s))"

definition is_revoked :: "('w, bool) vesting" where
  "is_revoked = gets (\<lambda>s. unwrap_or False (vk_Revoked s))"

definition read_release_count :: "('w, u32) vesting" where
  "read_release_count = gets (\<lambda>s. unwrap_or 0 (vk_ReleaseCount s))"

definition increment_release_count :: "('w, unit) vesting" where
  "increment_release_count =
     and_then read_release_count (\<lambda>count.
     and_then (u32_add count 1) (\<lambda>count'.
     modify (\<lambda>s. s\<lparr>vk_ReleaseCount := Some count'\<rparr>)))"

definition v_publish :: "vesting_event \<Rightarrow> ('w, unit) vesting" where
  "v_publish ev = modify (\<lambda>s. s\<lparr>v_events := v_events s @ [ev]\<rparr>)"

text \<open>\<open>TokenClient::balance\<close> and \<open>TokenClient::transfer\<close>: synchronous calls that trap on failure.\<close>

definition token_client_balance :: "'w env \<Rightarrow> address \<Rightarrow> address \<Rightarrow> ('w, i128) vesting" where
  "token_client_balance env token holder s =
     (case token_balance (host env) (v_world s) token holder of
        None \<Rightarrow> Trap
      | Some (x, w) \<Rightarrow> Done x (s\<lparr>v_world := w\<rparr>))"

definition token_client_transfer ::
  "'w env \<Rightarrow> address \<Rightarrow> address \<Rightarrow> address \<Rightarrow> i128 \<Rightarrow> ('w, unit) vesting" where
  "token_client_transfer env token from to amount s =
     (case token_transfer (host env) (v_world s) token from to amount of
        None \<Rightarrow> Trap
      | Some w \<Rightarrow> Done () (s\<lparr>v_world := w\<rparr>))"

subsection \<open>The vesting formula\<close>

definition compute_vested :: "'w env \<Rightarrow> ('w, i128) vesting" where
  "compute_vested env =
     and_then is_revoked (\<lambda>revoked.
     if revoked then gets (\<lambda>s. unwrap_or 0 (vk_RevokedVested s))
     else
       let current = uint (sequence env) in
       and_then get_cliff_ledger (\<lambda>cliff_ledger.
       let cliff = uint cliff_ledger in
       and_then get_start_ledger (\<lambda>start_ledger.
       let start = uint start_ledger in
       and_then get_end_ledger (\<lambda>end_ledger.
       let end = uint end_ledger in
       and_then get_total_amount (\<lambda>total.
       if current < cliff then ok 0
       else if current \<ge> end then ok total
       else
         and_then (i128_sub current start) (\<lambda>elapsed.
         and_then (ok_or ArithmeticOverflow (i128_checked_mul total elapsed)) (\<lambda>product.
         and_then (i128_sub end start) (\<lambda>duration.
         ok_or ArithmeticOverflow (i128_checked_div product duration)))))))))"

subsection \<open>Entry points that write\<close>

definition vesting_initialize ::
  "'w env \<Rightarrow> address \<Rightarrow> address \<Rightarrow> i128 \<Rightarrow> u32 \<Rightarrow> u32 \<Rightarrow> u32 \<Rightarrow> bool \<Rightarrow> address \<Rightarrow> ('w, unit) vesting"
where
  "vesting_initialize env beneficiary token total_amount start_ledger cliff_ledger end_ledger
     revocable admin =
     and_then (gets vk_Beneficiary) (\<lambda>stored.
     and_then (ensure (stored = None) VAlreadyInitialized) (\<lambda>_.
     and_then (ensure (beneficiary \<noteq> zero_address) InvalidInput) (\<lambda>_.
     and_then (assert_that (total_amount > 0)) (\<lambda>_.
     and_then (assert_that (start_ledger \<ge> sequence env)) (\<lambda>_.
     and_then (assert_that (cliff_ledger \<ge> start_ledger)) (\<lambda>_.
     and_then (assert_that (end_ledger > cliff_ledger)) (\<lambda>_.
     and_then (u32_sub end_ledger start_ledger) (\<lambda>d.
     let duration = uint d in
     and_then (ensure (\<not> (total_amount > MAX_TOTAL_AMOUNT \<or>
         i128_checked_mul total_amount duration = None)) TotalAmountTooLarge) (\<lambda>_.
     and_then (require_auth env admin) (\<lambda>_.
     and_then (modify (\<lambda>s. s\<lparr>vk_Beneficiary := Some beneficiary\<rparr>)) (\<lambda>_.
     and_then (modify (\<lambda>s. s\<lparr>vk_Token := Some token\<rparr>)) (\<lambda>_.
     and_then (modify (\<lambda>s. s\<lparr>vk_TotalAmount := Some total_amount\<rparr>)) (\<lambda>_.
     and_then (modify (\<lambda>s. s\<lparr>vk_StartLedger := Some start_ledger\<rparr>)) (\<lambda>_.
     and_then (modify (\<lambda>s. s\<lparr>vk_CliffLedger := Some cliff_ledger\<rparr>)) (\<lambda>_.
     and_then (modify (\<lambda>s. s\<lparr>vk_EndLedger := Some end_ledger\<rparr>)) (\<lambda>_.
     and_then (modify (\<lambda>s. s\<lparr>vk_Revocable := Some revocable\<rparr>)) (\<lambda>_.
     and_then (modify (\<lambda>s. s\<lparr>vk_Admin := Some admin\<rparr>)) (\<lambda>_.
     and_then (modify (\<lambda>s. s\<lparr>vk_Funder := Some admin\<rparr>)) (\<lambda>_.
     and_then (modify (\<lambda>s. s\<lparr>vk_ReleasedAmount := Some 0\<rparr>)) (\<lambda>_.
     and_then (token_client_transfer env token admin (current_contract env) total_amount) (\<lambda>_.
     and_then (v_publish (VestInit beneficiary token total_amount start_ledger end_ledger)) (\<lambda>_.
     v_bump_instance env))))))))))))))))))))))"

definition vesting_release :: "'w env \<Rightarrow> ('w, i128) vesting" where
  "vesting_release env =
     and_then v_require_initialized (\<lambda>_.
     and_then (v_bump_instance env) (\<lambda>_.
     and_then get_beneficiary (\<lambda>beneficiary.
     and_then (require_auth env beneficiary) (\<lambda>_.
     and_then (compute_vested env) (\<lambda>vested.
     and_then get_released (\<lambda>released.
     let releasable = max (i128_saturating_sub vested released) 0 in
     if releasable = 0 then ok 0
     else
       and_then get_token (\<lambda>token_address.
       and_then (token_client_balance env token_address (current_contract env)) (\<lambda>held.
       and_then (ensure (\<not> held < releasable) InsufficientBalance) (\<lambda>_.
       and_then increment_release_count (\<lambda>_.
       and_then (i128_add released releasable) (\<lambda>released_total.
       and_then (modify (\<lambda>s. s\<lparr>vk_ReleasedAmount := Some released_total\<rparr>)) (\<lambda>_.
       and_then (token_client_transfer env token_address (current_contract env) beneficiary releasable) (\<lambda>_.
       and_then (v_publish (VestReleased beneficiary releasable released_total)) (\<lambda>_.
       ok releasable))))))))))))))"

definition vesting_revoke :: "'w env \<Rightarrow> ('w, unit) vesting" where
  "vesting_revoke env =
     and_then v_require_initialized (\<lambda>_.
     and_then is_revocable (\<lambda>revocable.
     and_then (ensure revocable NotRevocable) (\<lambda>_.
     and_then is_revoked (\<lambda>revoked.
     and_then (ensure (\<not> revoked) AlreadyRevoked) (\<lambda>_.
     and_then get_admin (\<lambda>admin.
     and_then (require_auth env admin) (\<lambda>_.
     and_then (v_bump_instance env) (\<lambda>_.
     and_then (and_then (gets vk_Funder) unwrap) (\<lambda>funder.
     and_then (compute_vested env) (\<lambda>vested.
     and_then get_total_amount (\<lambda>total.
     and_then (i128_sub total vested) (\<lambda>unvested.
     and_then (modify (\<lambda>s. s\<lparr>vk_RevokedVested := Some vested\<rparr>)) (\<lambda>_.
     and_then (modify (\<lambda>s. s\<lparr>vk_Revoked := Some True\<rparr>)) (\<lambda>_.
     and_then
       (if unvested > 0
        then and_then get_token (\<lambda>token.
          token_client_transfer env token (current_contract env) funder unvested)
        else ok ()) (\<lambda>_.
     and_then get_beneficiary (\<lambda>beneficiary.
     v_publish (VestRevoked admin beneficiary vested unvested)))))))))))))))))"

definition vesting_release_all :: "'w env \<Rightarrow> ('w, i128) vesting" where
  "vesting_release_all env = vesting_release env"

subsection \<open>Entry points that read\<close>

definition vested_amount :: "'w env \<Rightarrow> ('w, i128) vesting" where
  "vested_amount env =
     and_then v_require_initialized (\<lambda>_.
     and_then (v_bump_instance env) (\<lambda>_.
     compute_vested env))"

definition released_amount :: "'w env \<Rightarrow> ('w, i128) vesting" where
  "released_amount env =
     and_then v_require_initialized (\<lambda>_.
     and_then (v_bump_instance env) (\<lambda>_.
     get_released))"

definition is_fully_released :: "'w env \<Rightarrow> ('w, bool) vesting" where
  "is_fully_released env =
     and_then v_require_initialized (\<lambda>_.
     and_then (v_bump_instance env) (\<lambda>_.
     and_then get_released (\<lambda>released.
     and_then get_total_amount (\<lambda>total.
     ok (released = total)))))"

definition releasable_amount :: "'w env \<Rightarrow> ('w, i128) vesting" where
  "releasable_amount env =
     and_then v_require_initialized (\<lambda>_.
     and_then (v_bump_instance env) (\<lambda>_.
     and_then (compute_vested env) (\<lambda>vested.
     and_then get_released (\<lambda>released.
     i128_sub vested released))))"

definition vesting_revocable :: "'w env \<Rightarrow> ('w, bool) vesting" where
  "vesting_revocable env =
     and_then v_require_initialized (\<lambda>_.
     and_then (v_bump_instance env) (\<lambda>_.
     is_revocable))"

definition vesting_revoked :: "'w env \<Rightarrow> ('w, bool) vesting" where
  "vesting_revoked env =
     and_then v_require_initialized (\<lambda>_.
     and_then (v_bump_instance env) (\<lambda>_.
     is_revoked))"

definition vesting_beneficiary :: "'w env \<Rightarrow> ('w, address) vesting" where
  "vesting_beneficiary env =
     and_then v_require_initialized (\<lambda>_.
     and_then (v_bump_instance env) (\<lambda>_.
     get_beneficiary))"

definition get_vesting_schedule :: "'w env \<Rightarrow> ('w, VestingSchedule) vesting" where
  "get_vesting_schedule env =
     and_then v_require_initialized (\<lambda>_.
     and_then (v_bump_instance env) (\<lambda>_.
     and_then get_beneficiary (\<lambda>beneficiary.
     and_then get_token (\<lambda>token.
     and_then get_total_amount (\<lambda>total_amount.
     and_then get_start_ledger (\<lambda>start_ledger.
     and_then get_cliff_ledger (\<lambda>cliff_ledger.
     and_then get_end_ledger (\<lambda>end_ledger.
     and_then is_revocable (\<lambda>revocable.
     ok \<lparr>vs_beneficiary = beneficiary, vs_token = token, vs_total_amount = total_amount,
         vs_start_ledger = start_ledger, vs_cliff_ledger = cliff_ledger,
         vs_end_ledger = end_ledger, vs_revocable = revocable\<rparr>)))))))))"

definition get_vesting_overview :: "'w env \<Rightarrow> ('w, VestingOverview) vesting" where
  "get_vesting_overview env =
     and_then v_require_initialized (\<lambda>_.
     and_then (v_bump_instance env) (\<lambda>_.
     and_then (compute_vested env) (\<lambda>vested.
     and_then get_released (\<lambda>released.
     and_then get_beneficiary (\<lambda>beneficiary.
     and_then get_token (\<lambda>token.
     and_then get_total_amount (\<lambda>total_amount.
     and_then get_start_ledger (\<lambda>start_ledger.
     and_then get_cliff_ledger (\<lambda>cliff_ledger.
     and_then get_end_ledger (\<lambda>end_ledger.
     and_then is_revocable (\<lambda>revocable.
     and_then is_revoked (\<lambda>revoked.
     ok \<lparr>vo_beneficiary = beneficiary, vo_token = token, vo_total_amount = total_amount,
         vo_start_ledger = start_ledger, vo_cliff_ledger = cliff_ledger,
         vo_end_ledger = end_ledger, vo_revocable = revocable, vo_revoked = revoked,
         vo_vested_amount = vested, vo_released_amount = released,
         vo_releasable_amount = max (i128_saturating_sub vested released) 0\<rparr>))))))))))))"

definition vesting_dates :: "'w env \<Rightarrow> ('w, u32 \<times> u32 \<times> u32) vesting" where
  "vesting_dates env =
     and_then v_require_initialized (\<lambda>_.
     and_then (v_bump_instance env) (\<lambda>_.
     and_then get_start_ledger (\<lambda>start_ledger.
     and_then get_cliff_ledger (\<lambda>cliff_ledger.
     and_then get_end_ledger (\<lambda>end_ledger.
     ok (start_ledger, cliff_ledger, end_ledger))))))"

subsection \<open>Administration\<close>

definition vesting_emergency_withdraw :: "'w env \<Rightarrow> ('w, i128) vesting" where
  "vesting_emergency_withdraw env =
     and_then v_require_initialized (\<lambda>_.
     and_then get_admin (\<lambda>admin.
     and_then (require_auth env admin) (\<lambda>_.
     and_then (v_bump_instance env) (\<lambda>_.
     and_then get_token (\<lambda>token.
     and_then (token_client_balance env token (current_contract env)) (\<lambda>amount.
     and_then (modify (\<lambda>s. s\<lparr>vk_Revoked := Some True\<rparr>)) (\<lambda>_.
     and_then (modify (\<lambda>s. s\<lparr>vk_RevokedVested := Some 0\<rparr>)) (\<lambda>_.
     and_then
       (if amount > 0
        then token_client_transfer env token (current_contract env) admin amount
        else ok ()) (\<lambda>_.
     ok amount)))))))))"

definition transfer_beneficiary :: "'w env \<Rightarrow> address \<Rightarrow> ('w, unit) vesting" where
  "transfer_beneficiary env new_beneficiary =
     and_then v_require_initialized (\<lambda>_.
     and_then (ensure (new_beneficiary \<noteq> zero_address) InvalidInput) (\<lambda>_.
     and_then get_admin (\<lambda>admin.
     and_then (require_auth env admin) (\<lambda>_.
     and_then (v_bump_instance env) (\<lambda>_.
     modify (\<lambda>s. s\<lparr>vk_Beneficiary := Some new_beneficiary\<rparr>))))))"

definition vesting_token :: "'w env \<Rightarrow> ('w, address) vesting" where
  "vesting_token env =
     and_then v_require_initialized (\<lambda>_.
     and_then (v_bump_instance env) (\<lambda>_.
     get_token))"

definition vesting_admin :: "'w env \<Rightarrow> ('w, address) vesting" where
  "vesting_admin env =
     and_then v_require_initialized (\<lambda>_.
     and_then (v_bump_instance env) (\<lambda>_.
     get_admin))"

definition vesting_transfer_admin :: "'w env \<Rightarrow> address \<Rightarrow> ('w, unit) vesting" where
  "vesting_transfer_admin env new_admin =
     and_then v_require_initialized (\<lambda>_.
     and_then get_admin (\<lambda>current.
     and_then (require_auth env current) (\<lambda>_.
     and_then (v_bump_instance env) (\<lambda>_.
     and_then (modify (\<lambda>s. s\<lparr>vk_Admin := Some new_admin\<rparr>)) (\<lambda>_.
     v_publish (VestAdmXfr current new_admin))))))"

definition release_count :: "'w env \<Rightarrow> ('w, u32) vesting" where
  "release_count env =
     and_then v_require_initialized (\<lambda>_.
     and_then (v_bump_instance env) (\<lambda>_.
     read_release_count))"

definition get_release_count :: "'w env \<Rightarrow> ('w, u32) vesting" where
  "get_release_count env = release_count env"

end
