(* ===== verification/Vesting_Proofs.thy ===== *)
theory Vesting_Proofs
  imports Vesting
begin

text \<open>
  Single calls of the vesting wallet. The schedule a wallet promises is \<open>vested_at\<close>, the
  mathematical form of the linear schedule with a cliff; \<open>wallet_ok\<close> is what every initialized
  wallet satisfies, and \<open>wallet_inv\<close> adds the wallet that is still empty. Under \<open>wallet_ok\<close> each
  entry point has a closed form (the \<open>_run\<close> lemmas), from which its behaviour on every branch
  follows.
\<close>

subsection \<open>The schedule\<close>

definition vested_at :: "i128 \<Rightarrow> u32 \<Rightarrow> u32 \<Rightarrow> u32 \<Rightarrow> u32 \<Rightarrow> i128" where
  "vested_at tot start cliff end now =
     (if now < cliff then 0
      else if end \<le> now then tot
      else tot * (uint now - uint start) div (uint end - uint start))"

definition schedule_wf :: "i128 \<Rightarrow> u32 \<Rightarrow> u32 \<Rightarrow> u32 \<Rightarrow> bool" where
  "schedule_wf tot start cliff end \<longleftrightarrow>
     0 < tot \<and> tot \<le> MAX_TOTAL_AMOUNT \<and> start \<le> cliff \<and> cliff < end"

lemma MAX_TOTAL_AMOUNT_eq: "MAX_TOTAL_AMOUNT = 39614081266355540835774234624"
  by (simp add: MAX_TOTAL_AMOUNT_def sdiv_nonneg)

lemma schedule_wf_in_i128: "schedule_wf tot start cliff end \<Longrightarrow> in_i128 tot"
  by (simp add: schedule_wf_def MAX_TOTAL_AMOUNT_eq in_i128_def)

text \<open>The ceiling on \<open>total_amount\<close> keeps the product of the formula inside \<open>i128\<close>.\<close>

lemma product_in_i128:
  assumes "0 \<le> tot" and "tot \<le> MAX_TOTAL_AMOUNT" and "0 \<le> d" and "d \<le> 4294967295"
  shows "in_i128 (tot * d)"
proof -
  have "tot * d \<le> MAX_TOTAL_AMOUNT * 4294967295"
    using assms by (intro mult_mono) auto
  moreover have "0 \<le> tot * d"
    using assms by simp
  ultimately show ?thesis
    by (simp add: in_i128_def MAX_TOTAL_AMOUNT_eq)
qed

lemma vested_at_linear:
  assumes "schedule_wf tot start cliff end" and "cliff \<le> now" and "now < end"
  shows "vested_at tot start cliff end now = tot * (uint now - uint start) div (uint end - uint start)"
    and "0 \<le> uint now - uint start" and "uint now - uint start < uint end - uint start"
proof -
  show "vested_at tot start cliff end now = tot * (uint now - uint start) div (uint end - uint start)"
    using assms by (auto simp: vested_at_def)
  from assms have "start \<le> now"
    by (auto simp: schedule_wf_def)
  then show "0 \<le> uint now - uint start"
    by (simp add: word_le_def)
  from assms show "uint now - uint start < uint end - uint start"
    by (simp add: word_less_def)
qed

lemma vested_at_bounds:
  assumes "schedule_wf tot start cliff end"
  shows "0 \<le> vested_at tot start cliff end now" and "vested_at tot start cliff end now \<le> tot"
proof -
  have "0 \<le> vested_at tot start cliff end now \<and> vested_at tot start cliff end now \<le> tot"
  proof (cases "cliff \<le> now \<and> now < end")
    case True
    then have "cliff \<le> now" and "now < end"
      by auto
    note lin = vested_at_linear [OF assms this]
    let ?e = "uint now - uint start" and ?d = "uint end - uint start"
    have "tot * ?e \<le> tot * ?d"
      using lin(3) assms by (intro mult_left_mono) (auto simp: schedule_wf_def)
    then have "tot * ?e div ?d \<le> tot * ?d div ?d"
      using lin by (intro zdiv_mono1) auto
    moreover have "0 \<le> tot * ?e div ?d"
      using lin assms by (intro pos_imp_zdiv_nonneg_iff [THEN iffD2]) (auto simp: schedule_wf_def)
    ultimately show ?thesis
      using lin by auto
  next
    case False
    then show ?thesis
      using assms by (auto simp: vested_at_def schedule_wf_def)
  qed
  then show "0 \<le> vested_at tot start cliff end now" and "vested_at tot start cliff end now \<le> tot"
    by auto
qed

lemma vested_at_mono:
  assumes "schedule_wf tot start cliff end" and "now \<le> later"
  shows "vested_at tot start cliff end now \<le> vested_at tot start cliff end later"
proof (cases "cliff \<le> now \<and> later < end")
  case True
  with assms(2) have now: "cliff \<le> now" "now < end" and later: "cliff \<le> later" "later < end"
    by auto
  have "tot * (uint now - uint start) \<le> tot * (uint later - uint start)"
    using assms by (intro mult_left_mono) (auto simp: schedule_wf_def word_le_def)
  then show ?thesis
    using vested_at_linear [OF assms(1) now] vested_at_linear [OF assms(1) later]
    by (simp add: zdiv_mono1)
next
  case False
  then consider "now < cliff" | "end \<le> later"
    by force
  then show ?thesis
  proof cases
    case 1
    then have "vested_at tot start cliff end now = 0"
      by (simp add: vested_at_def)
    then show ?thesis
      using vested_at_bounds(1) [OF assms(1)] by simp
  next
    case 2
    with assms(1) have "vested_at tot start cliff end later = tot"
      by (auto simp: vested_at_def schedule_wf_def)
    then show ?thesis
      using vested_at_bounds(2) [OF assms(1)] by simp
  qed
qed

subsection \<open>Well-formed wallets\<close>

definition wallet_fresh :: "'w wallet \<Rightarrow> bool" where
  "wallet_fresh s \<longleftrightarrow> s = empty_wallet (v_instance_live_until s) (v_world s)"

definition wallet_ok :: "'w wallet \<Rightarrow> bool" where
  "wallet_ok s \<longleftrightarrow>
     vk_Beneficiary s \<noteq> None \<and> the (vk_Beneficiary s) \<noteq> zero_address \<and> vk_Token s \<noteq> None \<and>
     vk_TotalAmount s \<noteq> None \<and> vk_StartLedger s \<noteq> None \<and> vk_CliffLedger s \<noteq> None \<and>
     vk_EndLedger s \<noteq> None \<and> vk_ReleasedAmount s \<noteq> None \<and> vk_Admin s \<noteq> None \<and>
     vk_Funder s \<noteq> None \<and> vk_Revocable s \<noteq> None \<and>
     schedule_wf (the (vk_TotalAmount s)) (the (vk_StartLedger s)) (the (vk_CliffLedger s))
       (the (vk_EndLedger s)) \<and>
     0 \<le> the (vk_ReleasedAmount s) \<and> the (vk_ReleasedAmount s) \<le> the (vk_TotalAmount s) \<and>
     (if unwrap_or False (vk_Revoked s)
      then vk_RevokedVested s \<noteq> None \<and> 0 \<le> the (vk_RevokedVested s) \<and>
        the (vk_RevokedVested s) \<le> the (vk_TotalAmount s)
      else vk_RevokedVested s = None)"

definition wallet_inv :: "'w wallet \<Rightarrow> bool" where
  "wallet_inv s \<longleftrightarrow> wallet_fresh s \<or> wallet_ok s"

lemma wallet_okE:
  assumes "wallet_ok s"
  obtains b tok tot st cl en rel adm fdr rv where
    "vk_Beneficiary s = Some b" "b \<noteq> zero_address" "vk_Token s = Some tok"
    "vk_TotalAmount s = Some tot" "vk_StartLedger s = Some st" "vk_CliffLedger s = Some cl"
    "vk_EndLedger s = Some en" "vk_ReleasedAmount s = Some rel" "vk_Admin s = Some adm"
    "vk_Funder s = Some fdr" "vk_Revocable s = Some rv" "schedule_wf tot st cl en"
    "0 \<le> rel" "rel \<le> tot"
  using assms by (auto simp: wallet_ok_def)

text \<open>Writes outside the schedule.\<close>

lemma wallet_ok_frame [simp]:
  "wallet_ok (s\<lparr>v_instance_live_until := n\<rparr>) = wallet_ok s"
  "wallet_ok (s\<lparr>v_world := w\<rparr>) = wallet_ok s"
  "wallet_ok (s\<lparr>v_events := es\<rparr>) = wallet_ok s"
  "wallet_ok (s\<lparr>vk_ReleaseCount := c\<rparr>) = wallet_ok s"
  by (simp_all add: wallet_ok_def)

definition v_bumped :: "'w env \<Rightarrow> 'w wallet \<Rightarrow> 'w wallet" where
  "v_bumped env s = s\<lparr>v_instance_live_until :=
     extend_ttl (host env) V_TTL_THRESHOLD V_TTL_EXTEND_TO (sequence env) (v_instance_live_until s)\<rparr>"

lemma v_bump_instance_run [run_simps]: "v_bump_instance env s = Done () (v_bumped env s)"
  by (simp add: v_bump_instance_def v_bumped_def run_simps)

lemma v_bump_instance_Done [run_iffs]: "v_bump_instance env s = Done u t \<longleftrightarrow> t = v_bumped env s"
  by (auto simp: run_simps)

lemma v_bumped_simps [simp]:
  "vk_Beneficiary (v_bumped env s) = vk_Beneficiary s" "vk_Token (v_bumped env s) = vk_Token s"
  "vk_TotalAmount (v_bumped env s) = vk_TotalAmount s"
  "vk_StartLedger (v_bumped env s) = vk_StartLedger s"
  "vk_CliffLedger (v_bumped env s) = vk_CliffLedger s" "vk_EndLedger (v_bumped env s) = vk_EndLedger s"
  "vk_ReleasedAmount (v_bumped env s) = vk_ReleasedAmount s" "vk_Admin (v_bumped env s) = vk_Admin s"
  "vk_Funder (v_bumped env s) = vk_Funder s" "vk_Revocable (v_bumped env s) = vk_Revocable s"
  "vk_Revoked (v_bumped env s) = vk_Revoked s"
  "vk_RevokedVested (v_bumped env s) = vk_RevokedVested s"
  "vk_ReleaseCount (v_bumped env s) = vk_ReleaseCount s" "v_events (v_bumped env s) = v_events s"
  "v_world (v_bumped env s) = v_world s" "wallet_ok (v_bumped env s) = wallet_ok s"
  by (simp_all add: v_bumped_def)

definition w_revoked :: "'w wallet \<Rightarrow> bool" where
  "w_revoked s = unwrap_or False (vk_Revoked s)"

definition w_total :: "'w wallet \<Rightarrow> i128" where
  "w_total s = the (vk_TotalAmount s)"

definition w_released :: "'w wallet \<Rightarrow> i128" where
  "w_released s = unwrap_or 0 (vk_ReleasedAmount s)"

definition w_vested :: "'w wallet \<Rightarrow> u32 \<Rightarrow> i128" where
  "w_vested s now =
     (if w_revoked s then unwrap_or 0 (vk_RevokedVested s)
      else vested_at (w_total s) (the (vk_StartLedger s)) (the (vk_CliffLedger s))
        (the (vk_EndLedger s)) now)"

lemma w_frame [simp]:
  "w_revoked (s\<lparr>v_instance_live_until := n\<rparr>) = w_revoked s"
  "w_total (s\<lparr>v_instance_live_until := n\<rparr>) = w_total s"
  "w_released (s\<lparr>v_instance_live_until := n\<rparr>) = w_released s"
  "w_vested (s\<lparr>v_instance_live_until := n\<rparr>) now = w_vested s now"
  "w_revoked (s\<lparr>v_world := w\<rparr>) = w_revoked s"
  "w_total (s\<lparr>v_world := w\<rparr>) = w_total s"
  "w_released (s\<lparr>v_world := w\<rparr>) = w_released s"
  "w_vested (s\<lparr>v_world := w\<rparr>) now = w_vested s now"
  "w_revoked (s\<lparr>vk_Beneficiary := b\<rparr>) = w_revoked s"
  "w_total (s\<lparr>vk_Beneficiary := b\<rparr>) = w_total s"
  "w_released (s\<lparr>vk_Beneficiary := b\<rparr>) = w_released s"
  "w_vested (s\<lparr>vk_Beneficiary := b\<rparr>) now = w_vested s now"
  "w_revoked (s\<lparr>vk_Admin := b\<rparr>) = w_revoked s"
  "w_total (s\<lparr>vk_Admin := b\<rparr>) = w_total s"
  "w_released (s\<lparr>vk_Admin := b\<rparr>) = w_released s"
  "w_vested (s\<lparr>vk_Admin := b\<rparr>) now = w_vested s now"
  "w_revoked (s\<lparr>v_events := es\<rparr>) = w_revoked s"
  "w_total (s\<lparr>v_events := es\<rparr>) = w_total s"
  "w_released (s\<lparr>v_events := es\<rparr>) = w_released s"
  "w_vested (s\<lparr>v_events := es\<rparr>) now = w_vested s now"
  "w_revoked (v_bumped env s) = w_revoked s" "w_total (v_bumped env s) = w_total s"
  "w_released (v_bumped env s) = w_released s" "w_vested (v_bumped env s) now = w_vested s now"
  by (simp_all add: w_revoked_def w_total_def w_released_def w_vested_def)

lemma w_vested_bounds:
  assumes "wallet_ok s"
  shows "0 \<le> w_vested s now" and "w_vested s now \<le> w_total s" and "in_i128 (w_vested s now)"
proof -
  from assms have wf: "schedule_wf (w_total s) (the (vk_StartLedger s)) (the (vk_CliffLedger s))
      (the (vk_EndLedger s))"
    by (simp add: wallet_ok_def w_total_def)
  show bounds: "0 \<le> w_vested s now" "w_vested s now \<le> w_total s"
    using vested_at_bounds [OF wf] assms by (auto simp: w_vested_def wallet_ok_def w_revoked_def w_total_def)
  from schedule_wf_in_i128 [OF wf] bounds show "in_i128 (w_vested s now)"
    unfolding in_i128_def by linarith
qed

lemma w_vested_mono:
  assumes "wallet_ok s" and "now \<le> later"
  shows "w_vested s now \<le> w_vested s later"
  using assms vested_at_mono [of "w_total s" "the (vk_StartLedger s)"]
  by (auto simp: w_vested_def wallet_ok_def w_total_def)

subsection \<open>Closed forms of the internal functions\<close>

lemma getter_run [run_simps]:
  "vk_Beneficiary s = Some b \<Longrightarrow> get_beneficiary s = Done b s"
  "vk_Token s = Some tok \<Longrightarrow> get_token s = Done tok s"
  "vk_TotalAmount s = Some n \<Longrightarrow> get_total_amount s = Done n s"
  "vk_StartLedger s = Some st \<Longrightarrow> get_start_ledger s = Done st s"
  "vk_CliffLedger s = Some st \<Longrightarrow> get_cliff_ledger s = Done st s"
  "vk_EndLedger s = Some st \<Longrightarrow> get_end_ledger s = Done st s"
  "vk_Admin s = Some b \<Longrightarrow> get_admin s = Done b s"
  by (simp_all add: get_beneficiary_def get_token_def get_total_amount_def get_start_ledger_def
      get_cliff_ledger_def get_end_ledger_def get_admin_def run_simps)

lemma reader_run [run_simps]:
  "get_released s = Done (w_released s) s"
  "is_revoked s = Done (w_revoked s) s"
  "is_revocable s = Done (unwrap_or False (vk_Revocable s)) s"
  "read_release_count s = Done (unwrap_or 0 (vk_ReleaseCount s)) s"
  by (simp_all add: get_released_def is_revoked_def is_revocable_def read_release_count_def
      w_released_def w_revoked_def run_simps)

lemma v_require_initialized_run [run_simps]:
  "v_require_initialized s = (if vk_Beneficiary s = None then Fail VNotInitialized s else Done () s)"
  by (simp add: v_require_initialized_def run_simps)

lemma v_publish_run [run_simps]: "v_publish ev s = Done () (s\<lparr>v_events := v_events s @ [ev]\<rparr>)"
  by (simp add: v_publish_def run_simps)

lemma compute_vested_fields:
  assumes f: "vk_TotalAmount s = Some tot" "vk_StartLedger s = Some st" "vk_CliffLedger s = Some cl"
    "vk_EndLedger s = Some en" and wf: "schedule_wf tot st cl en" and live: "\<not> w_revoked s"
  shows "compute_vested env s = Done (vested_at tot st cl en (sequence env)) s"
proof -
  let ?now = "sequence env"
  let ?e = "uint ?now - uint st" and ?d = "uint en - uint st"
  have "uint ?now < uint cl \<longleftrightarrow> ?now < cl" and "uint en \<le> uint ?now \<longleftrightarrow> en \<le> ?now"
    by (simp_all add: word_less_def word_le_def)
  moreover have "in_i128 ?e" "in_i128 ?d"
    by simp_all
  moreover have "in_i128 (tot * ?e)" "?d \<noteq> 0" "(tot * ?e) sdiv ?d = tot * ?e div ?d"
    "in_i128 (tot * ?e div ?d)" if "cl \<le> ?now" "?now < en"
  proof -
    note lin = vested_at_linear [OF wf that]
    have "?e \<le> 4294967295"
      using uint_u32_bounds [of ?now] uint_u32_bounds [of st] by linarith
    with lin wf show "in_i128 (tot * ?e)"
      by (intro product_in_i128) (auto simp: schedule_wf_def)
    from lin show "?d \<noteq> 0" by simp
    from lin wf show "(tot * ?e) sdiv ?d = tot * ?e div ?d"
      by (intro sdiv_nonneg) (auto simp: schedule_wf_def)
    from vested_at_bounds [OF wf, of ?now] schedule_wf_in_i128 [OF wf] lin(1)
    show "in_i128 (tot * ?e div ?d)"
      unfolding in_i128_def by linarith
  qed
  ultimately show ?thesis
    using f live by (auto simp: compute_vested_def run_simps Let_def vested_at_def
        i128_checked_mul_def i128_checked_div_def not_less not_le)
qed

lemma compute_vested_run:
  assumes "wallet_ok s"
  shows "compute_vested env s = Done (w_vested s (sequence env)) s"
proof (cases "w_revoked s")
  case True
  then show ?thesis by (simp add: compute_vested_def run_simps w_vested_def)
next
  case False
  with assms show ?thesis
    by (elim wallet_okE) (simp add: compute_vested_fields w_vested_def w_total_def)
qed

text \<open>What a release would pay.\<close>

definition w_releasable :: "'w wallet \<Rightarrow> u32 \<Rightarrow> i128" where
  "w_releasable s now = max (w_vested s now - w_released s) 0"

lemma wallet_ok_released:
  assumes "wallet_ok s"
  shows "0 \<le> w_released s" and "w_released s \<le> w_total s" and "in_i128 (w_released s)"
    and "in_i128 (w_total s)"
proof -
  from assms show b: "0 \<le> w_released s" "w_released s \<le> w_total s"
    by (auto simp: wallet_ok_def w_released_def w_total_def)
  from assms show t: "in_i128 (w_total s)"
    by (auto simp: wallet_ok_def w_total_def intro: schedule_wf_in_i128)
  from b t show "in_i128 (w_released s)"
    unfolding in_i128_def by linarith
qed

lemma saturating_releasable:
  assumes "wallet_ok s"
  shows "max (i128_saturating_sub (w_vested s now) (w_released s)) 0 = w_releasable s now"
  using w_vested_bounds [OF assms, of now] wallet_ok_released [OF assms]
  by (simp add: i128_saturating_sub_def w_releasable_def)

lemma releasable_total:
  assumes "wallet_ok s"
  shows "w_released s + w_releasable s now = max (w_released s) (w_vested s now)"
    and "0 \<le> w_releasable s now" and "w_released s + w_releasable s now \<le> w_total s"
    and "in_i128 (w_released s + w_releasable s now)"
  using w_vested_bounds [OF assms, of now] wallet_ok_released [OF assms]
  by (auto simp: w_releasable_def in_i128_def max_def)

subsection \<open>Successful runs of the entry points\<close>

lemma getter_Done [run_iffs]:
  "get_admin s = Done a t \<longleftrightarrow> vk_Admin s = Some a \<and> t = s"
  "get_token s = Done a t \<longleftrightarrow> vk_Token s = Some a \<and> t = s"
  "get_beneficiary s = Done a t \<longleftrightarrow> vk_Beneficiary s = Some a \<and> t = s"
  "get_total_amount s = Done n t \<longleftrightarrow> vk_TotalAmount s = Some n \<and> t = s"
  "get_start_ledger s = Done l t \<longleftrightarrow> vk_StartLedger s = Some l \<and> t = s"
  "get_cliff_ledger s = Done l t \<longleftrightarrow> vk_CliffLedger s = Some l \<and> t = s"
  "get_end_ledger s = Done l t \<longleftrightarrow> vk_EndLedger s = Some l \<and> t = s"
  by (auto simp: get_admin_def get_token_def get_beneficiary_def get_total_amount_def
      get_start_ledger_def get_cliff_ledger_def get_end_ledger_def run_iffs)

lemma reader_Done [run_iffs]:
  "get_released s = Done x t \<longleftrightarrow> x = w_released s \<and> t = s"
  "is_revoked s = Done p t \<longleftrightarrow> p = w_revoked s \<and> t = s"
  "is_revocable s = Done p t \<longleftrightarrow> p = unwrap_or False (vk_Revocable s) \<and> t = s"
  "read_release_count s = Done n t \<longleftrightarrow> n = unwrap_or 0 (vk_ReleaseCount s) \<and> t = s"
  by (auto simp: reader_run)

lemma v_require_initialized_Done [run_iffs]:
  "v_require_initialized s = Done a t \<longleftrightarrow> vk_Beneficiary s \<noteq> None \<and> t = s"
  by (auto simp: run_simps)

lemma increment_release_count_Done [run_iffs]:
  "increment_release_count s = Done x t \<longleftrightarrow>
     (\<exists>c. u32_checked_add (unwrap_or 0 (vk_ReleaseCount s)) 1 = Some c \<and>
       t = s\<lparr>vk_ReleaseCount := Some c\<rparr>)"
  by (auto simp: increment_release_count_def run_iffs)

lemma v_publish_Done [run_iffs]:
  "v_publish ev s = Done x t \<longleftrightarrow> t = s\<lparr>v_events := v_events s @ [ev]\<rparr>"
  by (auto simp: run_simps)

lemma token_client_balance_Done [run_iffs]:
  "token_client_balance env token holder s = Done x t \<longleftrightarrow>
     (\<exists>w. token_balance (host env) (v_world s) token holder = Some (x, w) \<and> t = s\<lparr>v_world := w\<rparr>)"
  by (auto simp: token_client_balance_def split: option.splits)

lemma token_client_transfer_Done [run_iffs]:
  "token_client_transfer env token from to amount s = Done x t \<longleftrightarrow>
     (\<exists>w. token_transfer (host env) (v_world s) token from to amount = Some w \<and> t = s\<lparr>v_world := w\<rparr>)"
  by (auto simp: token_client_transfer_def split: option.splits)

lemma compute_vested_bumped:
  "wallet_ok s \<Longrightarrow> compute_vested env (v_bumped env s) = Done (w_vested s (sequence env)) (v_bumped env s)"
  using compute_vested_run [of "v_bumped env s" env] by simp

text \<open>The closed form of \<open>release\<close>: every branch, errors included.\<close>

definition release_paid :: "'w env \<Rightarrow> 'w wallet \<Rightarrow> address \<Rightarrow> i128 \<Rightarrow> u32 \<Rightarrow> 'w \<Rightarrow> 'w wallet" where
  "release_paid env s b r c w = (v_bumped env s)\<lparr>vk_ReleaseCount := Some c,
     vk_ReleasedAmount := Some (w_released s + r), v_world := w,
     v_events := v_events s @ [VestReleased b r (w_released s + r)]\<rparr>"

lemma increment_release_count_run [run_simps]:
  "increment_release_count s =
     (case u32_checked_add (unwrap_or 0 (vk_ReleaseCount s)) 1 of
        None \<Rightarrow> Trap | Some c \<Rightarrow> Done () (s\<lparr>vk_ReleaseCount := Some c\<rparr>))"
  by (auto simp: increment_release_count_def run_simps u32_add_def split: option.splits)

lemma release_run:
  assumes "wallet_ok s" and "vk_Beneficiary s = Some b" and "vk_Token s = Some tok"
    and r: "r = w_releasable s (sequence env)"
  shows "vesting_release env s =
    (if \<not> authorized env b then Trap
     else if r = 0 then Done 0 (v_bumped env s)
     else case token_balance (host env) (v_world s) tok (current_contract env) of
       None \<Rightarrow> Trap
     | Some (held, w1) \<Rightarrow>
         if held < r then Fail InsufficientBalance ((v_bumped env s)\<lparr>v_world := w1\<rparr>)
         else case u32_checked_add (unwrap_or 0 (vk_ReleaseCount s)) 1 of
           None \<Rightarrow> Trap
         | Some c \<Rightarrow>
             (case token_transfer (host env) w1 tok (current_contract env) b r of
               None \<Rightarrow> Trap
             | Some w2 \<Rightarrow> Done r (release_paid env s b r c w2)))"
  using assms releasable_total(4) [OF assms(1), of "sequence env"]
  by (simp add: vesting_release_def Let_def run_simps compute_vested_bumped saturating_releasable
      token_client_balance_def token_client_transfer_def release_paid_def
      split: option.split prod.split)

definition revoke_done :: "'w env \<Rightarrow> 'w wallet \<Rightarrow> address \<Rightarrow> address \<Rightarrow> i128 \<Rightarrow> i128 \<Rightarrow> 'w \<Rightarrow> 'w wallet" where
  "revoke_done env s adm b vested unvested w = (v_bumped env s)\<lparr>vk_RevokedVested := Some vested,
     vk_Revoked := Some True, v_world := w,
     v_events := v_events s @ [VestRevoked adm b vested unvested]\<rparr>"

lemma revoke_run:
  assumes "wallet_ok s" and "vk_Beneficiary s = Some b" and "vk_Token s = Some tok"
    and "vk_Admin s = Some adm" and "vk_Funder s = Some fdr" and "vk_Revocable s = Some rv"
    and v: "v = w_vested s (sequence env)"
  shows "vesting_revoke env s =
    (if \<not> rv then Fail NotRevocable s
     else if w_revoked s then Fail AlreadyRevoked s
     else if \<not> authorized env adm then Trap
     else if v < w_total s then
       (case token_transfer (host env) (v_world s) tok (current_contract env) fdr (w_total s - v) of
          None \<Rightarrow> Trap
        | Some w \<Rightarrow> Done () (revoke_done env s adm b v (w_total s - v) w))
     else Done () (revoke_done env s adm b v 0 (v_world s)))"
proof -
  have "vk_TotalAmount s = Some (w_total s)"
    using assms(1) by (auto simp: wallet_ok_def w_total_def)
  moreover have "in_i128 (w_total s - v)" and "v \<le> w_total s"
    using w_vested_bounds [OF assms(1)] wallet_ok_released [OF assms(1)] v by simp_all
  ultimately show ?thesis
    using assms by (auto simp: vesting_revoke_def run_simps compute_vested_bumped
        token_client_transfer_def revoke_done_def split: option.split)
qed

definition emergency_done :: "'w env \<Rightarrow> 'w wallet \<Rightarrow> 'w \<Rightarrow> 'w wallet" where
  "emergency_done env s w = (v_bumped env s)\<lparr>vk_RevokedVested := Some 0, vk_Revoked := Some True,
     v_world := w\<rparr>"

lemma emergency_withdraw_run:
  assumes "vk_Beneficiary s = Some b" and "vk_Token s = Some tok" and "vk_Admin s = Some adm"
  shows "vesting_emergency_withdraw env s =
    (if \<not> authorized env adm then Trap
     else case token_balance (host env) (v_world s) tok (current_contract env) of
       None \<Rightarrow> Trap
     | Some (amount, w1) \<Rightarrow>
         if amount > 0 then
           (case token_transfer (host env) w1 tok (current_contract env) adm amount of
              None \<Rightarrow> Trap
            | Some w2 \<Rightarrow> Done amount (emergency_done env s w2))
         else Done amount (emergency_done env s w1))"
  using assms by (simp add: vesting_emergency_withdraw_def run_simps token_client_balance_def
      token_client_transfer_def emergency_done_def split: option.split prod.split)

definition initialize_done ::
  "'w env \<Rightarrow> 'w wallet \<Rightarrow> address \<Rightarrow> address \<Rightarrow> i128 \<Rightarrow> u32 \<Rightarrow> u32 \<Rightarrow> u32 \<Rightarrow> bool \<Rightarrow> address \<Rightarrow> 'w \<Rightarrow> 'w wallet"
where
  "initialize_done env s b tok tot st cl en rv adm w =
     v_bumped env (s\<lparr>vk_Beneficiary := Some b, vk_Token := Some tok, vk_TotalAmount := Some tot,
       vk_StartLedger := Some st, vk_CliffLedger := Some cl, vk_EndLedger := Some en,
       vk_Revocable := Some rv, vk_Admin := Some adm, vk_Funder := Some adm,
       vk_ReleasedAmount := Some 0, v_world := w,
       v_events := v_events s @ [VestInit b tok tot st en]\<rparr>)"

lemma u32_diff_bounds: "st \<le> en \<Longrightarrow> uint (en - st :: u32) = uint en - uint st"
  by (simp add: uint_sub_if' word_le_def)

text \<open>
  The second half of the size check of \<open>initialize\<close> is never what refuses: an amount at or below
  the ceiling has a product in range for every \<open>u32\<close> duration.
\<close>

lemma checked_mul_total:
  assumes "0 < tot" and "tot \<le> MAX_TOTAL_AMOUNT"
  shows "i128_checked_mul tot (uint (d :: u32)) = Some (tot * uint d)"
  using product_in_i128 [of tot "uint d"] assms by (simp add: i128_checked_mul_def)

lemma initialize_run:
  assumes "vk_Beneficiary s = None" and "b \<noteq> zero_address"
    and "schedule_wf tot st cl en" and "sequence env \<le> st"
  shows "vesting_initialize env b tok tot st cl en rv adm s =
    (if \<not> authorized env adm then Trap
     else case token_transfer (host env) (v_world s) tok adm (current_contract env) tot of
       None \<Rightarrow> Trap
     | Some w \<Rightarrow> Done () (initialize_done env s b tok tot st cl en rv adm w))"
proof -
  have "st \<le> en"
    using assms(3) by (auto simp: schedule_wf_def)
  then show ?thesis
    using assms checked_mul_total [of tot "en - st"]
    by (simp add: vesting_initialize_def run_simps Let_def schedule_wf_def initialize_done_def
        token_client_transfer_def not_less split: option.split)
qed

lemma initialize_Done:
  assumes "vesting_initialize env b tok tot st cl en rv adm s = Done u t"
  shows "vk_Beneficiary s = None \<and> b \<noteq> zero_address \<and> schedule_wf tot st cl en \<and>
    sequence env \<le> st \<and> authorized env adm \<and>
    (\<exists>w. token_transfer (host env) (v_world s) tok adm (current_contract env) tot = Some w \<and>
      t = initialize_done env s b tok tot st cl en rv adm w)"
proof -
  from assms have g: "vk_Beneficiary s = None" "b \<noteq> zero_address" "schedule_wf tot st cl en"
    "sequence env \<le> st"
    by (auto simp: vesting_initialize_def run_iffs Let_def schedule_wf_def not_less)
  from assms g show ?thesis
    by (auto simp: initialize_run split: if_splits option.splits)
qed

subsection \<open>Every call keeps the wallet well-formed\<close>

lemma wallet_fresh_fields:
  assumes "wallet_fresh s"
  shows "vk_Beneficiary s = None" and "vk_Revoked s = None" and "vk_RevokedVested s = None"
    and "vk_ReleasedAmount s = None"
  using arg_cong [OF assms [unfolded wallet_fresh_def], of vk_Beneficiary]
    arg_cong [OF assms [unfolded wallet_fresh_def], of vk_Revoked]
    arg_cong [OF assms [unfolded wallet_fresh_def], of vk_RevokedVested]
    arg_cong [OF assms [unfolded wallet_fresh_def], of vk_ReleasedAmount]
  by (simp_all add: empty_wallet_def)

lemma wallet_ok_init: "wallet_ok s \<Longrightarrow> vk_Beneficiary s \<noteq> None"
  by (simp add: wallet_ok_def)

lemma wallet_inv_ok: "wallet_inv s \<Longrightarrow> vk_Beneficiary s \<noteq> None \<Longrightarrow> wallet_ok s"
  using wallet_fresh_fields [of s] by (auto simp: wallet_inv_def)

lemma initialize_done_ok:
  assumes "wallet_fresh s" and "b \<noteq> zero_address" and "schedule_wf tot st cl en"
  shows "wallet_ok (initialize_done env s b tok tot st cl en rv adm w)"
  using assms wallet_fresh_fields [OF assms(1)]
  by (auto simp: wallet_ok_def initialize_done_def schedule_wf_def)

lemma release_paid_ok:
  assumes "wallet_ok s"
  shows "wallet_ok (release_paid env s b (w_releasable s now) c w)"
  using assms releasable_total [OF assms, of now] wallet_ok_released [OF assms]
  by (simp add: wallet_ok_def release_paid_def w_total_def)

lemma revoke_done_ok:
  assumes "wallet_ok s"
  shows "wallet_ok (revoke_done env s adm b (w_vested s now) u w)"
  using assms w_vested_bounds [OF assms, of now]
  by (simp add: wallet_ok_def revoke_done_def w_total_def)

lemma emergency_done_ok:
  assumes "wallet_ok s"
  shows "wallet_ok (emergency_done env s w)"
  using assms by (auto simp: wallet_ok_def emergency_done_def schedule_wf_def)

end
