(* ===== verification/Transition.thy ===== *)
theory Transition
  imports Main
begin

text \<open>
  State machines: reachability, the rule for invariants and simulation, as two locales that the
  machines of the contracts interpret.
\<close>

inductive reach :: "('s \<Rightarrow> bool) \<Rightarrow> ('s \<Rightarrow> 's \<Rightarrow> bool) \<Rightarrow> 's \<Rightarrow> bool" for start step where
  reach_start: "start s \<Longrightarrow> reach start step s"
| reach_step: "reach start step s \<Longrightarrow> step s t \<Longrightarrow> reach start step t"

lemma reach_mono: "reach P step s \<Longrightarrow> (\<And>s. P s \<Longrightarrow> Q s) \<Longrightarrow> reach Q step s"
  by (induction rule: reach.induct) (auto intro: reach.intros)

text \<open>An inductive invariant holds in every reachable state.\<close>

locale inductive_invariant =
  fixes start :: "'s \<Rightarrow> bool" and step :: "'s \<Rightarrow> 's \<Rightarrow> bool" and invariant :: "'s \<Rightarrow> bool"
  assumes invariant_start: "start s \<Longrightarrow> invariant s"
    and invariant_step: "invariant s \<Longrightarrow> step s t \<Longrightarrow> invariant t"
begin

lemma reach_invariant: "reach start step s \<Longrightarrow> invariant s"
  by (induction rule: reach.induct) (auto intro: invariant_start invariant_step)

end

text \<open>
  A forward simulation: under the invariant, every step of the machine is an abstract step or
  leaves the abstraction as it is.
\<close>

locale simulation = inductive_invariant +
  fixes abs :: "'s \<Rightarrow> 'a" and abs_start :: "'a \<Rightarrow> bool" and abs_step :: "'a \<Rightarrow> 'a \<Rightarrow> bool"
  assumes sim_start: "start s \<Longrightarrow> abs_start (abs s)"
    and sim_step: "invariant s \<Longrightarrow> step s t \<Longrightarrow> abs t = abs s \<or> abs_step (abs s) (abs t)"
begin

lemma reach_abs: "reach start step s \<Longrightarrow> reach abs_start abs_step (abs s)"
proof (induction rule: reach.induct)
  case (reach_start s)
  then show ?case by (intro reach.reach_start sim_start)
next
  case (reach_step s t)
  from sim_step [OF reach_invariant [OF reach_step.hyps(1)] reach_step.hyps(2)]
  consider "abs t = abs s" | "abs_step (abs s) (abs t)" by auto
  then show ?case
    using reach_step.IH by cases (auto intro: reach.reach_step)
qed

end

end
