(* ===== verification/Vesting_Machine.thy ===== *)
theory Vesting_Machine
  imports Vesting_Proofs Transition
begin

text \<open>
  The vesting wallet as a state machine. \<open>vesting_call\<close> dispatches to the entry points of the
  contract, \<open>vesting_call_cases\<close> lists what a successful call can do to an initialized wallet, and
  \<open>vsys_step\<close> interleaves invocations with the passing of ledgers and with steps of everything
  outside the wallet.
\<close>

subsection \<open>Invocations\<close>

datatype vesting_op =
    OpInitialize address address i128 u32 u32 u32 bool address
  | OpRelease | OpRevoke | OpReleaseAll
  | OpVestedAmount | OpReleasedAmount | OpIsFullyReleased | OpReleasable | OpRevocable | OpRevoked
  | OpBeneficiary | OpGetVestingSchedule | OpGetVestingOverview | OpVestingDates
  | OpEmergencyWithdraw | OpTransferBeneficiary address | OpToken | OpAdmin
  | OpTransferAdmin address | OpReleaseCount | OpGetReleaseCount

datatype vesting_value =
    VUnit unit | VAmount i128 | VBool bool | VAddress address | VSchedule VestingSchedule
  | VOverview VestingOverview | VDates "u32 \<times> u32 \<times> u32" | VCount u32

fun vesting_call :: "vesting_op \<Rightarrow> 'w env \<Rightarrow> ('w, vesting_value) vesting" where
  "vesting_call (OpInitialize b tok tot st cl en rv adm) env =
     returns VUnit (vesting_initialize env b tok tot st cl en rv adm)"
| "vesting_call OpRelease env = returns VAmount (vesting_release env)"
| "vesting_call OpRevoke env = returns VUnit (vesting_revoke env)"
| "vesting_call OpReleaseAll env = returns VAmount (vesting_release_all env)"
| "vesting_call OpVestedAmount env = returns VAmount (vested_amount env)"
| "vesting_call OpReleasedAmount env = returns VAmount (released_amount env)"
| "vesting_call OpIsFullyReleased env = returns VBool (is_fully_released env)"
| "vesting_call OpReleasable env = returns VAmount (releasable_amount env)"
| "vesting_call OpRevocable env = returns VBool (vesting_revocable env)"
| "vesting_call OpRevoked env = returns VBool (vesting_revoked env)"
| "vesting_call OpBeneficiary env = returns VAddress (vesting_beneficiary env)"
| "vesting_call OpGetVestingSchedule env = returns VSchedule (get_vesting_schedule env)"
| "vesting_call OpGetVestingOverview env = returns VOverview (get_vesting_overview env)"
| "vesting_call OpVestingDates env = returns VDates (vesting_dates env)"
| "vesting_call OpEmergencyWithdraw env = returns VAmount (vesting_emergency_withdraw env)"
| "vesting_call (OpTransferBeneficiary b) env = returns VUnit (transfer_beneficiary env b)"
| "vesting_call OpToken env = returns VAddress (vesting_token env)"
| "vesting_call OpAdmin env = returns VAddress (vesting_admin env)"
| "vesting_call (OpTransferAdmin a) env = returns VUnit (vesting_transfer_admin env a)"
| "vesting_call OpReleaseCount env = returns VCount (release_count env)"
| "vesting_call OpGetReleaseCount env = returns VCount (get_release_count env)"

subsection \<open>The read entry points\<close>

lemmas vesting_reader_defs = vested_amount_def released_amount_def is_fully_released_def
  releasable_amount_def vesting_revocable_def vesting_revoked_def vesting_beneficiary_def
  get_vesting_schedule_def get_vesting_overview_def vesting_dates_def vesting_token_def
  vesting_admin_def release_count_def get_release_count_def

lemma vested_amount_run:
  "wallet_ok s \<Longrightarrow> vested_amount env s = Done (w_vested s (sequence env)) (v_bumped env s)"
  using wallet_ok_init [of s] by (auto simp: vested_amount_def run_simps compute_vested_bumped)

lemma released_amount_run:
  "wallet_ok s \<Longrightarrow> released_amount env s = Done (w_released s) (v_bumped env s)"
  using wallet_ok_init [of s] by (auto simp: released_amount_def run_simps)

lemma is_fully_released_run:
  "wallet_ok s \<Longrightarrow> is_fully_released env s = Done (w_released s = w_total s) (v_bumped env s)"
  by (elim wallet_okE) (simp add: is_fully_released_def run_simps w_total_def)

lemma releasable_amount_run:
  assumes "wallet_ok s"
  shows "releasable_amount env s = Done (w_vested s (sequence env) - w_released s) (v_bumped env s)"
proof -
  have "in_i128 (w_vested s (sequence env) - w_released s)"
    using w_vested_bounds [OF assms] wallet_ok_released [OF assms] by simp
  then show ?thesis
    using wallet_ok_init [OF assms] assms
    by (auto simp: releasable_amount_def run_simps compute_vested_bumped)
qed

lemma get_vesting_overview_run:
  assumes "wallet_ok s"
  shows "get_vesting_overview env s = Done
    \<lparr>vo_beneficiary = the (vk_Beneficiary s), vo_token = the (vk_Token s), vo_total_amount = w_total s,
     vo_start_ledger = the (vk_StartLedger s), vo_cliff_ledger = the (vk_CliffLedger s),
     vo_end_ledger = the (vk_EndLedger s), vo_revocable = the (vk_Revocable s),
     vo_revoked = w_revoked s, vo_vested_amount = w_vested s (sequence env),
     vo_released_amount = w_released s, vo_releasable_amount = w_releasable s (sequence env)\<rparr>
    (v_bumped env s)"
  using assms by (elim wallet_okE) (simp add: get_vesting_overview_def run_simps
      compute_vested_bumped [OF assms] saturating_releasable [OF assms] w_total_def)

text \<open>A read changes nothing but the time to live of the instance.\<close>

definition vesting_reads :: "vesting_op \<Rightarrow> bool" where
  "vesting_reads op \<longleftrightarrow> (case op of
     OpInitialize _ _ _ _ _ _ _ _ \<Rightarrow> False | OpRelease \<Rightarrow> False | OpRevoke \<Rightarrow> False
   | OpReleaseAll \<Rightarrow> False | OpEmergencyWithdraw \<Rightarrow> False | OpTransferBeneficiary _ \<Rightarrow> False
   | OpTransferAdmin _ \<Rightarrow> False | _ \<Rightarrow> True)"

lemma vesting_reads_run:
  assumes "wallet_ok s" and "vesting_reads op"
  shows "\<exists>v. vesting_call op env s = Done v (v_bumped env s)"
  using assms(1)
proof (rule wallet_okE)
  fix b tok tot st cl en rel adm fdr rv
  assume "vk_Beneficiary s = Some b" "vk_Token s = Some tok" "vk_TotalAmount s = Some tot"
    "vk_StartLedger s = Some st" "vk_CliffLedger s = Some cl" "vk_EndLedger s = Some en"
    "vk_Admin s = Some adm"
  then show ?thesis
    using assms(2) vested_amount_run [OF assms(1)] released_amount_run [OF assms(1)]
      releasable_amount_run [OF assms(1)] get_vesting_overview_run [OF assms(1)]
    by (cases op) (auto simp: vesting_reads_def vesting_revocable_def vesting_revoked_def
        vesting_beneficiary_def get_vesting_schedule_def vesting_dates_def vesting_token_def
        vesting_admin_def release_count_def get_release_count_def is_fully_released_def run_simps)
qed

subsection \<open>What a successful call can do\<close>

lemma release_cases:
  assumes "wallet_ok s" and "vk_Beneficiary s = Some b" and "vk_Token s = Some tok"
    and "vesting_release env s = Done x t"
  obtains (idle) "t = v_bumped env s"
  | (paid) held w1 w2 c where "authorized env b" "0 < x" "x = w_releasable s (sequence env)"
    "token_balance (host env) (v_world s) tok (current_contract env) = Some (held, w1)" "x \<le> held"
    "token_transfer (host env) w1 tok (current_contract env) b x = Some w2"
    "t = release_paid env s b x c w2" "u32_checked_add (unwrap_or 0 (vk_ReleaseCount s)) 1 = Some c"
  using assms(4) releasable_total(2) [OF assms(1), of "sequence env"]
  by (auto simp: release_run [OF assms(1-3) refl] not_less split: if_splits option.splits prod.splits)

lemma vesting_call_cases:
  assumes "wallet_ok s" and "vesting_call op env s = Done v t"
  obtains (idle) "t = v_bumped env s"
  | (paid) b tok r held w1 w2 c where "op = OpRelease \<or> op = OpReleaseAll"
    "vk_Beneficiary s = Some b" "vk_Token s = Some tok"
    "authorized env b" "r = w_releasable s (sequence env)" "0 < r" "v = VAmount r"
    "token_balance (host env) (v_world s) tok (current_contract env) = Some (held, w1)" "r \<le> held"
    "token_transfer (host env) w1 tok (current_contract env) b r = Some w2"
    "t = release_paid env s b r c w2" "u32_checked_add (unwrap_or 0 (vk_ReleaseCount s)) 1 = Some c"
  | (revoked) b tok adm fdr u w where "op = OpRevoke" "vk_Beneficiary s = Some b" "vk_Token s = Some tok"
    "vk_Admin s = Some adm" "vk_Funder s = Some fdr" "vk_Revocable s = Some True" "\<not> w_revoked s"
    "authorized env adm" "u = w_total s - w_vested s (sequence env)"
    "if 0 < u then token_transfer (host env) (v_world s) tok (current_contract env) fdr u = Some w
     else w = v_world s"
    "t = revoke_done env s adm b (w_vested s (sequence env)) u w"
  | (drained) tok adm x w1 w2 where "op = OpEmergencyWithdraw" "vk_Token s = Some tok" "vk_Admin s = Some adm"
    "authorized env adm" "v = VAmount x"
    "token_balance (host env) (v_world s) tok (current_contract env) = Some (x, w1)"
    "if 0 < x then token_transfer (host env) w1 tok (current_contract env) adm x = Some w2 else w2 = w1"
    "t = emergency_done env s w2"
  | (beneficiary) adm b where "op = OpTransferBeneficiary b" "vk_Admin s = Some adm" "authorized env adm"
    "b \<noteq> zero_address" "t = (v_bumped env s)\<lparr>vk_Beneficiary := Some b\<rparr>"
  | (admin) adm a where "op = OpTransferAdmin a" "vk_Admin s = Some adm" "authorized env adm"
    "t = (v_bumped env s)\<lparr>vk_Admin := Some a, v_events := v_events s @ [VestAdmXfr adm a]\<rparr>"
proof (cases "vesting_reads op")
  case True
  with vesting_reads_run [OF assms(1) True, of env] assms(2) show thesis
    by (auto intro: idle)
next
  case False
  obtain b tok adm fdr rv where f: "vk_Beneficiary s = Some b" "vk_Token s = Some tok"
    "vk_Admin s = Some adm" "vk_Funder s = Some fdr" "vk_Revocable s = Some rv"
    using assms(1) by (rule wallet_okE)
  note v_le = w_vested_bounds(2) [OF assms(1), of "sequence env"]
  have release: thesis if "op = OpRelease \<or> op = OpReleaseAll"
    and "vesting_release env s = Done x t" and "v = VAmount x" for x
    using assms(1) f(1,2) that(2) by (rule release_cases) (use f that in \<open>auto intro: idle paid\<close>)
  show thesis
  proof (cases op)
    case OpRelease
    with assms(2) release show thesis by (auto simp: run_iffs)
  next
    case OpReleaseAll
    with assms(2) release show thesis by (auto simp: run_iffs vesting_release_all_def)
  next
    case OpRevoke
    with assms(2) f v_le show thesis
      by (auto simp: run_iffs revoke_run [OF assms(1) f refl] split: if_splits option.splits intro!: revoked)
  next
    case OpEmergencyWithdraw
    with assms(2) f show thesis
      by (auto simp: run_iffs emergency_withdraw_run [OF f(1,2,3)] split: if_splits option.splits prod.splits
          intro!: drained)
  next
    case (OpTransferBeneficiary b')
    with assms(2) show thesis
      by (auto simp: run_iffs transfer_beneficiary_def intro!: beneficiary)
  next
    case (OpTransferAdmin a)
    with assms(2) show thesis
      by (auto simp: run_iffs vesting_transfer_admin_def intro!: admin)
  qed (use False assms(2) f in \<open>auto simp: vesting_reads_def run_iffs dest!: initialize_Done\<close>)
qed

subsection \<open>Calls that fail and calls that keep the invariant\<close>

fun is_initialize :: "vesting_op \<Rightarrow> bool" where
  "is_initialize (OpInitialize b tok tot st cl en rv adm) = True"
| "is_initialize op = False"

lemma vesting_uninit_fails:
  assumes "vk_Beneficiary s = None" and "\<not> is_initialize op"
  shows "vesting_call op env s = Fail VNotInitialized s"
  using assms by (cases op) (simp_all add: vesting_reader_defs vesting_release_def vesting_release_all_def
      vesting_revoke_def vesting_emergency_withdraw_def transfer_beneficiary_def
      vesting_transfer_admin_def run_simps)

lemma vesting_call_fresh_cases:
  assumes "vk_Beneficiary s = None" and "vesting_call op env s = Done v t"
  obtains b tok tot st cl en rv adm w where "op = OpInitialize b tok tot st cl en rv adm"
    "b \<noteq> zero_address" "schedule_wf tot st cl en" "sequence env \<le> st" "authorized env adm"
    "token_transfer (host env) (v_world s) tok adm (current_contract env) tot = Some w"
    "t = initialize_done env s b tok tot st cl en rv adm w"
proof (cases "is_initialize op")
  case True
  with assms(2) show thesis
    by (cases op) (auto simp: run_iffs dest!: initialize_Done intro: that)
next
  case False
  with vesting_uninit_fails [OF assms(1), of op env] assms(2) show thesis
    by auto
qed

lemma wallet_ok_writes [simp]:
  "wallet_ok s \<Longrightarrow> wallet_ok (s\<lparr>vk_Admin := Some a\<rparr>)"
  "wallet_ok s \<Longrightarrow> b \<noteq> zero_address \<Longrightarrow> wallet_ok (s\<lparr>vk_Beneficiary := Some b\<rparr>)"
  by (simp_all add: wallet_ok_def)

lemma vesting_call_ok:
  assumes "wallet_ok s" and "vesting_call op env s = Done v t"
  shows "wallet_ok t"
  using assms by (rule vesting_call_cases)
    (use assms(1) in \<open>auto intro: release_paid_ok revoke_done_ok emergency_done_ok\<close>)

lemma vesting_call_inv:
  assumes "wallet_inv s" and "vesting_call op env s = Done v t"
  shows "wallet_ok t"
proof (cases "vk_Beneficiary s = None")
  case True
  then have "wallet_fresh s"
    using assms(1) by (auto simp: wallet_inv_def dest: wallet_ok_init)
  with vesting_call_fresh_cases [OF True assms(2)] show ?thesis
    by (metis initialize_done_ok)
next
  case False
  with assms show ?thesis
    by (blast intro: vesting_call_ok wallet_inv_ok)
qed

subsection \<open>The system\<close>

text \<open>
  A wallet at its address \<open>self\<close>, in a world it shares with everybody else. A step is an invocation
  of any entry point at the current ledger, with any authorizations except the wallet's own (the
  wallet signs nothing and never calls itself), a later ledger, or a change of the outside state
  that \<open>outside\<close> allows.
\<close>

record 'w vsys =
  vclock :: u32
  vwallet :: "'w wallet"

inductive vsys_step :: "'w host \<Rightarrow> address \<Rightarrow> ('w \<Rightarrow> 'w \<Rightarrow> bool) \<Rightarrow> 'w vsys \<Rightarrow> 'w vsys \<Rightarrow> bool"
  for h self outside where
  vcall: "host env = h \<Longrightarrow> current_contract env = self \<Longrightarrow> sequence env = vclock \<sigma> \<Longrightarrow>
    \<not> authorized env self \<Longrightarrow>
    vsys_step h self outside \<sigma> (\<sigma>\<lparr>vwallet := snd (invoke (vesting_call op env) (vwallet \<sigma>))\<rparr>)"
| vledger: "vclock \<sigma> \<le> later \<Longrightarrow> vsys_step h self outside \<sigma> (\<sigma>\<lparr>vclock := later\<rparr>)"
| voutside: "outside (v_world (vwallet \<sigma>)) w \<Longrightarrow>
    vsys_step h self outside \<sigma> (\<sigma>\<lparr>vwallet := (vwallet \<sigma>)\<lparr>v_world := w\<rparr>\<rparr>)"

inductive_cases vsys_stepE: "vsys_step h self outside \<sigma> \<tau>"

definition vsys_start :: "('w \<Rightarrow> bool) \<Rightarrow> 'w vsys \<Rightarrow> bool" where
  "vsys_start ok_world \<sigma> \<longleftrightarrow> wallet_fresh (vwallet \<sigma>) \<and> ok_world (v_world (vwallet \<sigma>))"

lemma wallet_inv_world: "wallet_inv s \<Longrightarrow> wallet_inv (s\<lparr>v_world := w\<rparr>)"
  unfolding wallet_inv_def wallet_fresh_def
  by (auto simp: empty_wallet_def) (metis wallet.update_convs(16) wallet.surjective)

lemma vsys_step_inv:
  assumes "wallet_inv (vwallet \<sigma>)" and "vsys_step h self outside \<sigma> \<tau>"
  shows "wallet_inv (vwallet \<tau>)"
  using assms(2)
proof cases
  case (vcall env op)
  have "wallet_inv (snd (invoke (vesting_call op env) (vwallet \<sigma>)))"
    by (rule invoke_preserves [where P = wallet_inv, OF assms(1)]) (use vesting_call_inv [OF assms(1)] wallet_inv_def in blast)
  with vcall show ?thesis by simp
qed (use assms(1) wallet_inv_world in auto)

interpretation vesting_wf: inductive_invariant "vsys_start ok_world" "vsys_step h self outside"
  "\<lambda>\<sigma>. wallet_inv (vwallet \<sigma>)" for ok_world h self outside
  by unfold_locales (simp add: vsys_start_def wallet_inv_def, rule vsys_step_inv)

subsection \<open>What no sequence of calls can change\<close>

text \<open>
  The terms of the grant are fixed at initialization: no later step rewrites the schedule, the
  token or the funder, a released amount never shrinks, and a revocation is final.
\<close>

definition same_terms :: "'w wallet \<Rightarrow> 'w wallet \<Rightarrow> bool" where
  "same_terms s t \<longleftrightarrow>
     vk_Token t = vk_Token s \<and> vk_TotalAmount t = vk_TotalAmount s \<and>
     vk_StartLedger t = vk_StartLedger s \<and> vk_CliffLedger t = vk_CliffLedger s \<and>
     vk_EndLedger t = vk_EndLedger s \<and> vk_Revocable t = vk_Revocable s \<and>
     vk_Funder t = vk_Funder s \<and> w_released s \<le> w_released t \<and> (w_revoked s \<longrightarrow> w_revoked t)"

lemma same_terms_refl [simp]: "same_terms s s"
  by (simp add: same_terms_def)

lemma same_terms_trans: "same_terms s t \<Longrightarrow> same_terms t u \<Longrightarrow> same_terms s u"
  by (auto simp: same_terms_def)

lemma same_terms_world [simp]: "same_terms s (t\<lparr>v_world := w\<rparr>) = same_terms s t"
  by (simp add: same_terms_def)

lemma vesting_call_terms:
  assumes "wallet_ok s" and "vesting_call op env s = Done v t"
  shows "same_terms s t"
  using assms
proof (cases rule: vesting_call_cases)
  case (paid b tok r held w1 w2 c)
  then show ?thesis by (simp add: same_terms_def release_paid_def w_released_def w_revoked_def)
qed (simp_all add: same_terms_def revoke_done_def emergency_done_def w_released_def w_revoked_def)

lemma vsys_step_terms:
  assumes "wallet_ok (vwallet \<sigma>)" and "vsys_step h self outside \<sigma> \<tau>"
  shows "wallet_ok (vwallet \<tau>) \<and> same_terms (vwallet \<sigma>) (vwallet \<tau>)"
  using assms(2)
proof cases
  case (vcall env op)
  have "wallet_ok u \<and> same_terms (vwallet \<sigma>) u" if "u = snd (invoke (vesting_call op env) (vwallet \<sigma>))" for u
    unfolding that
    by (rule invoke_preserves [where P = "\<lambda>u. wallet_ok u \<and> same_terms (vwallet \<sigma>) u"])
      (use assms(1) vesting_call_ok [OF assms(1)] vesting_call_terms [OF assms(1)] in auto)
  with vcall(1) show ?thesis by simp
qed (use assms(1) in auto)

interpretation vesting_terms: inductive_invariant "\<lambda>\<sigma>. \<sigma> = \<sigma>\<^sub>0 \<and> wallet_ok (vwallet \<sigma>\<^sub>0)"
  "vsys_step h self outside" "\<lambda>\<sigma>. wallet_ok (vwallet \<sigma>) \<and> same_terms (vwallet \<sigma>\<^sub>0) (vwallet \<sigma>)"
  for \<sigma>\<^sub>0 h self outside
  by unfold_locales (auto dest: vsys_step_terms intro: same_terms_trans)

subsection \<open>Solvency\<close>

text \<open>
  What the wallet owes: the rest of the schedule while it runs, what was vested and not released
  once it is revoked.
\<close>

definition w_owed :: "'w wallet \<Rightarrow> i128" where
  "w_owed s = (if w_revoked s then max (unwrap_or 0 (vk_RevokedVested s) - w_released s) 0
     else w_total s - w_released s)"

lemma w_owed_frame [simp]:
  "w_owed (v_bumped env s) = w_owed s" "w_owed (s\<lparr>vk_Beneficiary := b\<rparr>) = w_owed s"
  "w_owed (s\<lparr>vk_Admin := a\<rparr>) = w_owed s" "w_owed (s\<lparr>v_events := es\<rparr>) = w_owed s"
  "w_owed (s\<lparr>v_world := w\<rparr>) = w_owed s"
  by (simp_all add: w_owed_def)

text \<open>
  Custody of one lawful token at \<open>self\<close>: nobody outside the wallet lowers the wallet's balance.
\<close>

locale wallet_custody =
  sep41_token invar bal "\<lambda>w. token_balance h w tok" "\<lambda>w. token_transfer h w tok"
  for invar :: "'w \<Rightarrow> bool" and bal :: "'w \<Rightarrow> address \<Rightarrow> i128" and h :: "'w host" and tok :: address +
  fixes self :: address and outside :: "'w \<Rightarrow> 'w \<Rightarrow> bool"
  assumes outside_custody: "outside w w' \<Longrightarrow> invar w \<Longrightarrow> invar w' \<and> bal w self \<le> bal w' self"
begin

definition holds :: "'w \<Rightarrow> bool" where
  "holds w \<longleftrightarrow> invar w \<and> 0 \<le> bal w self"

text \<open>The debts are covered at ledger \<open>now\<close>.\<close>

definition covers :: "u32 \<Rightarrow> 'w wallet \<Rightarrow> bool" where
  "covers now s \<longleftrightarrow> invar (v_world s) \<and> w_owed s \<le> bal (v_world s) self \<and> 0 \<le> bal (v_world s) self \<and>
     (\<not> w_revoked s \<longrightarrow> w_released s \<le> w_vested s now)"

definition covered :: "'w vsys \<Rightarrow> bool" where
  "covered \<sigma> \<longleftrightarrow> wallet_inv (vwallet \<sigma>) \<and>
     (vk_Beneficiary (vwallet \<sigma>) = None \<longrightarrow> holds (v_world (vwallet \<sigma>))) \<and>
     (vk_Beneficiary (vwallet \<sigma>) \<noteq> None \<longrightarrow> vk_Token (vwallet \<sigma>) = Some tok \<longrightarrow>
        covers (vclock \<sigma>) (vwallet \<sigma>))"

lemma covered_start: "vsys_start holds \<sigma> \<Longrightarrow> covered \<sigma>"
  using wallet_fresh_fields [of "vwallet \<sigma>"]
  by (auto simp: vsys_start_def covered_def wallet_inv_def)

text \<open>Each way a call can change an initialized wallet keeps its debts covered.\<close>

lemma covers_paid:
  assumes "wallet_ok s" and "covers now s"
    and "token_balance h (v_world s) tok self = Some (held, w1)" and "r \<le> held"
    and "token_transfer h w1 tok self b r = Some w2" and "r = w_releasable s now" and "0 < r"
  shows "covers now (release_paid env s b r c w2)"
proof -
  from assms(2) have inv: "invar (v_world s)" by (simp add: covers_def)
  from balance_Some [OF inv assms(3)] have held: "held = bal (v_world s) self"
    and w1: "bal w1 = bal (v_world s)" "invar w1" by auto
  from transfer_out [OF w1(2) assms(5)] assms(7) held w1 have "bal (v_world s) self - r \<le> bal w2 self"
    by simp
  moreover have "invar w2"
    by (rule transfer_invar [OF w1(2) assms(5)])
  moreover have "r = w_vested s now - w_released s"
    using assms(6,7) by (auto simp: w_releasable_def max_def split: if_splits)
  ultimately show ?thesis
    using assms(2,4,7) held
    by (auto simp: covers_def release_paid_def w_owed_def w_released_def w_vested_def w_total_def
        w_revoked_def)
qed

lemma covers_revoked:
  assumes "wallet_ok s" and "covers now s" and "\<not> w_revoked s"
    and "u = w_total s - w_vested s now"
    and "if 0 < u then token_transfer h (v_world s) tok self fdr u = Some w else w = v_world s"
  shows "covers now (revoke_done env s adm b (w_vested s now) u w)"
proof -
  have owed: "w_total s - w_released s \<le> bal (v_world s) self" "w_released s \<le> w_vested s now"
    and inv: "invar (v_world s)"
    using assms(2,3) by (auto simp: covers_def w_owed_def)
  have "invar w \<and> bal (v_world s) self - u \<le> bal w self"
  proof (cases "0 < u")
    case True
    with assms(5) have "token_transfer h (v_world s) tok self fdr u = Some w" by simp
    with transfer_out [OF inv this] transfer_invar [OF inv this] True show ?thesis by simp
  next
    case False
    with assms(4,5) w_vested_bounds(2) [OF assms(1), of now] inv show ?thesis by auto
  qed
  with owed assms(4) show ?thesis
    by (auto simp: covers_def revoke_done_def w_owed_def w_released_def w_revoked_def)
qed

lemma covers_drained:
  assumes "wallet_ok s" and "covers now s"
    and "token_balance h (v_world s) tok self = Some (x, w1)"
    and "if 0 < x then token_transfer h w1 tok self adm x = Some w2 else w2 = w1"
  shows "covers now (emergency_done env s w2)"
proof -
  from assms(2) have inv: "invar (v_world s)" and nn: "0 \<le> bal (v_world s) self"
    by (auto simp: covers_def)
  from balance_Some [OF inv assms(3)] have x: "x = bal w1 self" and w1: "invar w1" by auto
  have "invar w2 \<and> 0 \<le> bal w2 self"
  proof (cases "0 < x")
    case True
    with assms(4) have "token_transfer h w1 tok self adm x = Some w2" by simp
    with transfer_out [OF w1 this] transfer_invar [OF w1 this] True x show ?thesis by simp
  next
    case False
    with assms(4) w1 x nn balance_Some [OF inv assms(3)] show ?thesis by auto
  qed
  with wallet_ok_released(1) [OF assms(1)] show ?thesis
    by (auto simp: covers_def emergency_done_def w_owed_def w_released_def w_revoked_def)
qed

lemma covers_initialized:
  assumes "wallet_fresh s" and "holds (v_world s)" and "adm \<noteq> self" and "schedule_wf tot st cl en"
    and "token_transfer h (v_world s) tok adm self tot = Some w"
  shows "covers now (initialize_done env s b tok tot st cl en rv adm w)"
proof -
  from assms(2) have inv: "invar (v_world s)" and nn: "0 \<le> bal (v_world s) self"
    by (auto simp: holds_def)
  from transfer_in [OF inv assms(5,3)] have "bal w self = bal (v_world s) self + tot" .
  moreover have "invar w" by (rule transfer_invar [OF inv assms(5)])
  moreover have "0 \<le> vested_at tot st cl en now" by (rule vested_at_bounds(1) [OF assms(4)])
  moreover have "\<not> w_revoked s"
    using wallet_fresh_fields(2) [OF assms(1)] by (simp add: w_revoked_def)
  ultimately show ?thesis
    using nn assms(4) by (auto simp: covers_def initialize_done_def w_owed_def w_released_def
        w_total_def w_revoked_def w_vested_def schedule_wf_def)
qed

lemma covers_frame:
  "covers now s \<Longrightarrow> covers now (v_bumped env s)"
  "covers now s \<Longrightarrow> covers now (s\<lparr>vk_Beneficiary := b\<rparr>)"
  "covers now s \<Longrightarrow> covers now (s\<lparr>vk_Admin := a\<rparr>)"
  "covers now s \<Longrightarrow> covers now (s\<lparr>v_events := es\<rparr>)"
  by (simp_all add: covers_def)

lemma covers_call:
  assumes "wallet_ok s" and "vk_Token s = Some tok \<Longrightarrow> covers now s" and "host env = h"
    and "current_contract env = self" and "sequence env = now" and "vesting_call op env s = Done v t"
    and tok: "vk_Token t = Some tok"
  shows "covers now t"
  using assms(1,6)
proof (cases rule: vesting_call_cases)
  case (paid b tok' r held w1 w2 c)
  from paid(11) tok have same: "vk_Token s = Some tok" by (simp add: release_paid_def)
  with paid(3) have "tok' = tok" by simp
  with covers_paid [OF assms(1) assms(2) [OF same]] paid(5-11) show ?thesis
    unfolding assms(3-5) by blast
next
  case (revoked b tok' adm fdr u w)
  from revoked(11) tok have same: "vk_Token s = Some tok" by (simp add: revoke_done_def)
  with revoked(3) have "tok' = tok" by simp
  with covers_revoked [OF assms(1) assms(2) [OF same]] revoked(7-11) show ?thesis
    unfolding assms(3-5) by blast
next
  case (drained tok' adm x w1 w2)
  from drained(8) tok have same: "vk_Token s = Some tok" by (simp add: emergency_done_def)
  with drained(2) have "tok' = tok" by simp
  with covers_drained [OF assms(1) assms(2) [OF same]] drained(6-8) show ?thesis
    unfolding assms(3-5) by blast
qed (use assms(2) tok in \<open>simp_all add: covers_frame\<close>)

lemma covers_first_call:
  assumes "wallet_fresh s" and "holds (v_world s)" and "host env = h" and "current_contract env = self"
    and "\<not> authorized env self" and "vesting_call op env s = Done v t" and tok: "vk_Token t = Some tok"
  shows "covers now t"
proof -
  have "vk_Beneficiary s = None" using wallet_fresh_fields(1) [OF assms(1)] .
  from vesting_call_fresh_cases [OF this assms(6)] obtain b tok' tot st cl en rv adm w where
    i: "schedule_wf tot st cl en" "authorized env adm"
      "token_transfer h (v_world s) tok' adm self tot = Some w"
      "t = initialize_done env s b tok' tot st cl en rv adm w"
    unfolding assms(3,4) .
  from i(4) tok have "tok' = tok" by (simp add: initialize_done_def)
  with i assms(1,2,5) show ?thesis by (auto intro!: covers_initialized)
qed

lemma covered_call:
  assumes "covered \<sigma>" and "host env = h" and "current_contract env = self"
    and "sequence env = vclock \<sigma>" and "\<not> authorized env self"
    and "vesting_call op env (vwallet \<sigma>) = Done v t"
  shows "covered (\<sigma>\<lparr>vwallet := t\<rparr>)"
proof -
  from assms(1) have inv: "wallet_inv (vwallet \<sigma>)" by (simp add: covered_def)
  have "covers (vclock \<sigma>) t" if tok: "vk_Token t = Some tok"
  proof (cases "vk_Beneficiary (vwallet \<sigma>) = None")
    case True
    with inv have "wallet_fresh (vwallet \<sigma>)" by (auto simp: wallet_inv_def dest: wallet_ok_init)
    moreover from True assms(1) have "holds (v_world (vwallet \<sigma>))" by (simp add: covered_def)
    ultimately show ?thesis using assms(2,3,5,6) tok by (rule covers_first_call)
  next
    case False
    with assms(1) have "vk_Token (vwallet \<sigma>) = Some tok \<Longrightarrow> covers (vclock \<sigma>) (vwallet \<sigma>)"
      by (simp add: covered_def)
    from covers_call [OF wallet_inv_ok [OF inv False] this assms(2-4,6) tok] show ?thesis .
  qed
  with vesting_call_inv [OF inv assms(6)] show ?thesis
    by (auto simp: covered_def wallet_inv_def dest: wallet_ok_init)
qed

lemma covered_step:
  assumes "covered \<sigma>" and "vsys_step h self outside \<sigma> \<tau>"
  shows "covered \<tau>"
  using assms(2)
proof cases
  case (vcall env op)
  show ?thesis
  proof (cases "vesting_call op env" "vwallet \<sigma>" rule: invoke_cases)
    case (returned v t)
    with covered_call [OF assms(1) vcall(2-5)] vcall(1) show ?thesis by simp
  qed (use assms(1) vcall(1) in simp_all)
next
  case (vledger later)
  have "covers later s" if "covers (vclock \<sigma>) s" "wallet_ok s" for s
    using that w_vested_mono [OF that(2) vledger(2)] by (auto simp: covers_def)
  with assms(1) vledger(1) show ?thesis
    by (auto simp: covered_def intro: wallet_inv_ok)
next
  case (voutside w)
  note rely = outside_custody [OF voutside(2)]
  have "covers (vclock \<sigma>) (s\<lparr>v_world := w\<rparr>)" if "covers (vclock \<sigma>) s" "s = vwallet \<sigma>" for s
    using that rely by (fastforce simp: covers_def)
  with assms(1) voutside(1) rely show ?thesis
    by (auto simp: covered_def holds_def wallet_inv_world)
qed

sublocale custody: inductive_invariant "vsys_start holds" "vsys_step h self outside" covered
  by unfold_locales (rule covered_start, assumption, rule covered_step)

lemma reach_solvent:
  assumes "reach (vsys_start holds) (vsys_step h self outside) \<sigma>"
    and "vk_Token (vwallet \<sigma>) = Some tok" and "vk_Beneficiary (vwallet \<sigma>) \<noteq> None"
  shows "wallet_ok (vwallet \<sigma>)" and "covers (vclock \<sigma>) (vwallet \<sigma>)"
  using custody.reach_invariant [OF assms(1)] assms(2,3)
  by (auto simp: covered_def intro: wallet_inv_ok)

end

text \<open>
  The same custody over a token that honours payable transfers: what has vested can be claimed.
\<close>

locale paying_custody = wallet_custody +
  paying_token invar bal "\<lambda>w. token_balance h w tok" "\<lambda>w. token_transfer h w tok"
begin

lemma covers_releasable: "covers now s \<Longrightarrow> wallet_ok s \<Longrightarrow> w_releasable s now \<le> bal (v_world s) self"
  using w_vested_bounds(2) [of s now]
  by (auto simp: covers_def w_owed_def w_releasable_def w_vested_def max_def split: if_splits)

lemma release_succeeds:
  assumes "wallet_ok s" and "covers (sequence env) s" and "host env = h" and "current_contract env = self"
    and "vk_Token s = Some tok" and "vk_Beneficiary s = Some b" and "authorized env b" and "b \<noteq> self"
    and "vk_ReleaseCount s \<noteq> Some u32_max"
    and "in_i128 (bal (v_world s) b + w_releasable s (sequence env))"
  shows "\<exists>t. vesting_release env s = Done (w_releasable s (sequence env)) t \<and>
    bal (v_world t) b = bal (v_world s) b + w_releasable s (sequence env) \<and>
    w_released t = w_released s + w_releasable s (sequence env)"
proof (cases "w_releasable s (sequence env) = 0")
  case True
  with assms show ?thesis by (simp add: release_run [OF assms(1,6,5) refl])
next
  case False
  let ?r = "w_releasable s (sequence env)"
  from False releasable_total(2) [OF assms(1), of "sequence env"] have pos: "0 < ?r" by simp
  from assms(2) have inv: "invar (v_world s)" by (simp add: covers_def)
  from balance_returns [OF inv, of self] obtain w1 where
    w1: "token_balance h (v_world s) tok self = Some (bal (v_world s) self, w1)" "bal w1 = bal (v_world s)"
    "invar w1" by auto
  have le: "?r \<le> bal (v_world s) self" by (rule covers_releasable [OF assms(2,1)])
  obtain w2 where w2: "token_transfer h w1 tok self b ?r = Some w2" "bal w2 b = bal w1 b + ?r"
    using transfer_pays_out [OF w1(3), of ?r self b] pos le assms(8,10) w1(2) by auto
  have "\<exists>c. u32_checked_add (unwrap_or 0 (vk_ReleaseCount s)) 1 = Some c"
    using assms(9) u32_checked_add_1_None [of "unwrap_or 0 (vk_ReleaseCount s)"]
    by (cases "vk_ReleaseCount s") (auto simp: u32_checked_add_def)
  with assms(3,4,7) pos le w1 w2 show ?thesis
    by (auto simp: release_run [OF assms(1,6,5) refl] release_paid_def w_released_def not_less)
qed

end

end
