(* ===== verification/Mock_Tokens.thy ===== *)
theory Mock_Tokens
  imports Vesting_Machine
begin

text \<open>
  The token contracts of the repository, soroban/contracts/farming-pool/src/mock_fee_token.rs and
  mock_reentrant_token.rs.

  With no fee set, \<open>MockFeeToken\<close> is a lawful token: it interprets the token interfaces and the
  custody locales of the vesting wallet. With a fee it is not, and the difference is exactly the
  fee. The two re-entrant tokens take the call they make back into their target as a parameter.
\<close>

subsection \<open>MockFeeToken\<close>

record fee_token =
  ft_Balance :: "address \<Rightarrow> i128 option"
  ft_FeeBps :: "u32 option"

definition FEE_DENOMINATOR :: i128 where "FEE_DENOMINATOR = 10000"

definition fee_mint :: "address \<Rightarrow> i128 \<Rightarrow> (fee_token, 'e, unit) rust" where
  "fee_mint to amount =
     and_then (gets (\<lambda>s. unwrap_or 0 (ft_Balance s to))) (\<lambda>balance.
     and_then (i128_add balance amount) (\<lambda>new.
     modify (\<lambda>s. s\<lparr>ft_Balance := (ft_Balance s)(to \<mapsto> new)\<rparr>)))"

definition set_fee_bps :: "u32 \<Rightarrow> (fee_token, 'e, unit) rust" where
  "set_fee_bps fee_bps = modify (\<lambda>s. s\<lparr>ft_FeeBps := Some fee_bps\<rparr>)"

definition fee_balance :: "address \<Rightarrow> (fee_token, 'e, i128) rust" where
  "fee_balance holder = gets (\<lambda>s. unwrap_or 0 (ft_Balance s holder))"

definition fee_transfer :: "address \<Rightarrow> address \<Rightarrow> i128 \<Rightarrow> (fee_token, 'e, unit) rust" where
  "fee_transfer from to amount =
     and_then (gets (\<lambda>s. unwrap_or 0 (ft_FeeBps s))) (\<lambda>fee_bps.
     let fee = i128_saturating_mul amount (uint fee_bps) sdiv FEE_DENOMINATOR in
     and_then (gets (\<lambda>s. unwrap_or 0 (ft_Balance s from))) (\<lambda>from_balance.
     and_then (i128_sub from_balance amount) (\<lambda>from_new.
     and_then (modify (\<lambda>s. s\<lparr>ft_Balance := (ft_Balance s)(from \<mapsto> from_new)\<rparr>)) (\<lambda>_.
     and_then (gets (\<lambda>s. unwrap_or 0 (ft_Balance s to))) (\<lambda>to_balance.
     and_then (i128_add to_balance amount) (\<lambda>gross.
     and_then (i128_sub gross fee) (\<lambda>to_new.
     modify (\<lambda>s. s\<lparr>ft_Balance := (ft_Balance s)(to \<mapsto> to_new)\<rparr>))))))))"

text \<open>The token as the outside world of a contract that calls it at the address \<open>addr\<close>.\<close>

definition callee :: "('s, unit, 'a) rust \<Rightarrow> 's \<Rightarrow> ('a \<times> 's) option" where
  "callee m s = (case m s of Done a t \<Rightarrow> Some (a, t) | _ \<Rightarrow> None)"

definition fee_host :: "address \<Rightarrow> fee_token host" where
  "fee_host addr =
     \<lparr>extend_ttl = extend_ttl_max, min_persistent_ttl = 0,
      token_balance = (\<lambda>w token holder. if token = addr then callee (fee_balance holder) w else None),
      token_transfer = (\<lambda>w token from to amount. if token = addr
        then map_option snd (callee (fee_transfer from to amount) w) else None),
      try_symbol = (\<lambda>w a. (False, w)),
      try_balance = (\<lambda>w token holder. if token = addr
        then (map_option fst (callee (fee_balance holder) w), w) else (None, w)),
      deploy_v2 = (\<lambda>w self salt hash. None), pool_initialize = (\<lambda>w a args. None),
      try_total_staked = (\<lambda>w a. (None, w)), try_is_paused = (\<lambda>w a. (None, w)),
      try_pool_admin = (\<lambda>w a. (None, w)), try_upgrade = (\<lambda>w a hash. (False, w))\<rparr>"

definition fee_bal :: "fee_token \<Rightarrow> address \<Rightarrow> i128" where
  "fee_bal s a = unwrap_or 0 (ft_Balance s a)"

definition fee_of :: "fee_token \<Rightarrow> i128 \<Rightarrow> i128" where
  "fee_of s amount =
     i128_saturating_mul amount (uint (unwrap_or 0 (ft_FeeBps s))) sdiv FEE_DENOMINATOR"

definition fee_free :: "fee_token \<Rightarrow> bool" where
  "fee_free s \<longleftrightarrow> unwrap_or 0 (ft_FeeBps s) = 0 \<and> (\<forall>a. in_i128 (fee_bal s a))"

text \<open>Everything the outside can do that does not take the wallet's own balance.\<close>

definition fee_outside :: "address \<Rightarrow> fee_token \<Rightarrow> fee_token \<Rightarrow> bool" where
  "fee_outside self w w' \<longleftrightarrow>
     (\<exists>to amount. 0 \<le> amount \<and> callee (fee_mint to amount) w = Some ((), w')) \<or>
     (\<exists>from to amount. from \<noteq> self \<and> 0 \<le> amount \<and> callee (fee_transfer from to amount) w = Some ((), w'))"

lemma fee_bal_upd: "fee_bal (s\<lparr>ft_Balance := m\<rparr>) b = unwrap_or 0 (m b)"
  by (simp add: fee_bal_def)

lemma fee_bal_get: "unwrap_or 0 (ft_Balance s a) = fee_bal s a"
  by (simp add: fee_bal_def)

lemma callee_Some: "callee m s = Some (a, t) \<longleftrightarrow> m s = Done a t"
  by (auto simp: callee_def split: outcome.splits)

lemma fee_mint_Done:
  "fee_mint to amount s = Done u t \<longleftrightarrow> in_i128 (fee_bal s to + amount) \<and>
     t = s\<lparr>ft_Balance := (ft_Balance s)(to \<mapsto> fee_bal s to + amount)\<rparr>"
  by (auto simp: fee_mint_def run_iffs fee_bal_def)

text \<open>The whole transfer: the fee is burnt, and a self-transfer burns it too.\<close>

lemma fee_transfer_run:
  "fee_transfer from to amount s =
     (let mid = s\<lparr>ft_Balance := (ft_Balance s)(from \<mapsto> fee_bal s from - amount)\<rparr>;
          gross = fee_bal mid to + amount
      in if in_i128 (fee_bal s from - amount) \<and> in_i128 gross \<and> in_i128 (gross - fee_of s amount)
         then Done () (mid\<lparr>ft_Balance := (ft_Balance mid)(to \<mapsto> gross - fee_of s amount)\<rparr>)
         else Trap)"
  by (simp add: fee_transfer_def run_simps Let_def fee_bal_def fee_of_def)

lemma fee_of_free: "fee_free s \<Longrightarrow> fee_of s amount = 0"
  by (simp add: fee_free_def fee_of_def i128_saturating_mul_def i128_saturate_def)

lemma fee_transfer_Done:
  assumes "fee_transfer from to amount s = Done u t"
  shows "from \<noteq> to \<Longrightarrow> fee_bal t from = fee_bal s from - amount"
    and "from \<noteq> to \<Longrightarrow> fee_bal t to = fee_bal s to + amount - fee_of s amount"
    and "fee_free s \<Longrightarrow> from = to \<Longrightarrow> fee_bal t to = fee_bal s to"
    and "c \<noteq> from \<Longrightarrow> c \<noteq> to \<Longrightarrow> fee_bal t c = fee_bal s c"
    and "fee_free s \<Longrightarrow> fee_free t"
  using assms by (auto simp: fee_transfer_run Let_def fee_bal_upd fee_bal_get fee_of_free fee_free_def
      split: if_splits)

lemma fee_host_simps [simp]:
  "token_balance (fee_host a) w a holder = Some (fee_bal w holder, w)"
  "token_transfer (fee_host a) w a from to amount = map_option snd (callee (fee_transfer from to amount) w)"
  "try_symbol (fee_host a) w b = (False, w)"
  "extend_ttl (fee_host a) = extend_ttl_max"
  by (simp_all add: fee_host_def fee_balance_def callee_def run_simps fee_bal_def)

lemma fee_host_transfer:
  "token_transfer (fee_host a) w a from to amount = Some w' \<longleftrightarrow>
     fee_transfer from to amount w = (Done () w' :: (unit, unit, fee_token) outcome)"
  by (auto simp: callee_Some)

lemma fee_free_range: "fee_free s \<Longrightarrow> in_i128 (fee_bal s a)"
  by (simp add: fee_free_def)

lemma fee_free_received:
  "fee_transfer from to amount s = Done u t \<Longrightarrow> fee_free s \<Longrightarrow> from \<noteq> to \<Longrightarrow> fee_bal t to = fee_bal s to + amount"
  by (simp add: fee_transfer_Done(2) fee_of_free)

lemma fee_outside_custody:
  assumes "fee_outside self w w'" and "fee_free w"
  shows "fee_free w' \<and> fee_bal w self \<le> fee_bal w' self"
  using assms(1) unfolding fee_outside_def
proof (elim disjE exE conjE)
  fix to amount
  assume "0 \<le> amount" "callee (fee_mint to amount) w = Some ((), w')"
  then show ?thesis
    using assms(2) by (auto simp: callee_Some fee_mint_Done fee_bal_upd fee_bal_get fee_free_def)
next
  fix "from" to amount
  assume "from \<noteq> self" "0 \<le> amount" and run: "callee (fee_transfer from to amount) w = Some ((), w')"
  then show ?thesis
    using fee_transfer_Done [OF run [unfolded callee_Some]] fee_of_free [OF assms(2), of amount] assms(2)
    by (cases "self = to") auto
qed

interpretation fee: paying_custody fee_free fee_bal "fee_host addr" addr self "fee_outside self"
  for addr self
proof (unfold_locales, goal_cases)
  case (7 w w')
  then show ?case by (rule fee_outside_custody)
next
  case (8 w amount "from" to)
  then have free: "in_i128 (fee_bal w from)" by (simp add: fee_free_def)
  with 8 have "in_i128 (fee_bal w from - amount)" unfolding in_i128_def by linarith
  with 8 free show ?case
    by (auto simp: callee_def fee_transfer_run Let_def fee_bal_upd fee_bal_get fee_of_free)
qed (auto simp: callee_Some fee_free_range intro: fee_transfer_Done fee_free_received)

subsection \<open>MockReentrantToken and MockNaiveReentrantToken\<close>

text \<open>
  \<open>'v\<close> is the host's \<open>Val\<close>. The call into the target is the host's: \<open>rh_try_invoke\<close> is
  \<open>try_invoke_contract\<close> (\<open>None\<close> is \<open>Err\<close>) and \<open>rh_invoke\<close> is \<open>invoke_contract\<close> (\<open>None\<close> traps). Both
  may change the state outside the token.
\<close>

record ('w, 'v) reentry_host =
  rh_into_val :: "address \<Rightarrow> 'v"
  rh_try_invoke :: "'w \<Rightarrow> address \<Rightarrow> string \<Rightarrow> 'v list \<Rightarrow> 'v option \<times> 'w"
  rh_invoke :: "'w \<Rightarrow> address \<Rightarrow> string \<Rightarrow> 'v list \<Rightarrow> ('v \<times> 'w) option"

record ('w, 'v) reentrant_token =
  rt_Target :: "address option"
  rt_ReentrantUser :: "address option"
  rt_ReentryWasRejected :: "bool option"
  rt_ReentrantCall :: "(string \<times> 'v list) option"
  rt_BalanceCallCount :: "u32 option"
  rt_PoolBalance :: "i128 option"
  rt_world :: 'w

type_synonym ('w, 'v, 'e, 'a) reentrant = "(('w, 'v) reentrant_token, 'e, 'a) rust"

definition record_balance_call :: "address \<Rightarrow> ('w, 'v, 'e, i128) reentrant" where
  "record_balance_call holder =
     and_then (gets (\<lambda>s. unwrap_or 0 (rt_BalanceCallCount s))) (\<lambda>count.
     and_then (u32_add count 1) (\<lambda>next.
     and_then (modify (\<lambda>s. s\<lparr>rt_BalanceCallCount := Some next\<rparr>)) (\<lambda>_.
     and_then (gets rt_Target) (\<lambda>target.
     if target = Some holder then gets (\<lambda>s. unwrap_or 0 (rt_PoolBalance s)) else ok i128_max))))"

definition credit_pool :: "i128 \<Rightarrow> ('w, 'v, 'e, unit) reentrant" where
  "credit_pool amount =
     and_then (gets (\<lambda>s. unwrap_or 0 (rt_PoolBalance s))) (\<lambda>pool_balance.
     and_then (i128_add pool_balance amount) (\<lambda>new.
     modify (\<lambda>s. s\<lparr>rt_PoolBalance := Some new\<rparr>)))"

definition reentrant_configure :: "address \<Rightarrow> address \<Rightarrow> ('w, 'v, 'e, unit) reentrant" where
  "reentrant_configure target reentrant_user =
     and_then (modify (\<lambda>s. s\<lparr>rt_Target := Some target\<rparr>)) (\<lambda>_.
     modify (\<lambda>s. s\<lparr>rt_ReentrantUser := Some reentrant_user\<rparr>))"

definition configure_reentrant_call :: "string \<Rightarrow> 'v list \<Rightarrow> ('w, 'v, 'e, unit) reentrant" where
  "configure_reentrant_call fn_name args = modify (\<lambda>s. s\<lparr>rt_ReentrantCall := Some (fn_name, args)\<rparr>)"

definition reentrant_balance :: "address \<Rightarrow> ('w, 'v, 'e, i128) reentrant" where
  "reentrant_balance holder = record_balance_call holder"

definition balance_call_count :: "('w, 'v, 'e, u32) reentrant" where
  "balance_call_count = gets (\<lambda>s. unwrap_or 0 (rt_BalanceCallCount s))"

text \<open>The match that picks the function to re-enter with, shared by the two tokens.\<close>

definition reentrant_target_call ::
  "('w, 'v) reentry_host \<Rightarrow> ('w, 'v, 'e, string \<times> 'v list) reentrant" where
  "reentrant_target_call h =
     and_then (gets rt_ReentrantCall) (\<lambda>call.
     case call of
       Some c \<Rightarrow> ok c
     | None \<Rightarrow>
         and_then (and_then (gets rt_ReentrantUser) unwrap) (\<lambda>reentrant_user.
         ok (''get_user_position'', [rh_into_val h reentrant_user])))"

definition reentrant_transfer ::
  "('w, 'v) reentry_host \<Rightarrow> address \<Rightarrow> address \<Rightarrow> i128 \<Rightarrow> ('w, 'v, 'e, unit) reentrant" where
  "reentrant_transfer h from to amount =
     and_then (credit_pool amount) (\<lambda>_.
     and_then (and_then (gets rt_Target) unwrap) (\<lambda>target.
     and_then (reentrant_target_call h) (\<lambda>(fn_name, args).
     and_then (\<lambda>s. let (result, w) = rh_try_invoke h (rt_world s) target fn_name args
                   in Done result (s\<lparr>rt_world := w\<rparr>)) (\<lambda>result.
     modify (\<lambda>s. s\<lparr>rt_ReentryWasRejected := Some (result = None)\<rparr>)))))"

definition reentry_was_rejected :: "('w, 'v, 'e, bool) reentrant" where
  "reentry_was_rejected = gets (\<lambda>s. unwrap_or False (rt_ReentryWasRejected s))"

text \<open>\<open>MockNaiveReentrantToken\<close>.\<close>

definition naive_configure :: "address \<Rightarrow> address \<Rightarrow> ('w, 'v, 'e, unit) reentrant" where
  "naive_configure target reentrant_user =
     and_then (modify (\<lambda>s. s\<lparr>rt_Target := Some target\<rparr>)) (\<lambda>_.
     modify (\<lambda>s. s\<lparr>rt_ReentrantUser := Some reentrant_user\<rparr>))"

definition naive_configure_reentrant_call :: "string \<Rightarrow> 'v list \<Rightarrow> ('w, 'v, 'e, unit) reentrant" where
  "naive_configure_reentrant_call fn_name args = modify (\<lambda>s. s\<lparr>rt_ReentrantCall := Some (fn_name, args)\<rparr>)"

definition naive_balance :: "address \<Rightarrow> ('w, 'v, 'e, i128) reentrant" where
  "naive_balance holder = record_balance_call holder"

definition naive_balance_call_count :: "('w, 'v, 'e, u32) reentrant" where
  "naive_balance_call_count = gets (\<lambda>s. unwrap_or 0 (rt_BalanceCallCount s))"

definition naive_transfer ::
  "('w, 'v) reentry_host \<Rightarrow> address \<Rightarrow> address \<Rightarrow> i128 \<Rightarrow> ('w, 'v, 'e, unit) reentrant" where
  "naive_transfer h from to amount =
     and_then (credit_pool amount) (\<lambda>_.
     and_then (and_then (gets rt_Target) unwrap) (\<lambda>target.
     and_then (reentrant_target_call h) (\<lambda>(fn_name, args).
     \<lambda>s. case rh_invoke h (rt_world s) target fn_name args of
           None \<Rightarrow> Trap
         | Some (_, w) \<Rightarrow> Done () (s\<lparr>rt_world := w\<rparr>))))"

lemma credit_pool_run [run_simps]:
  "credit_pool amount s =
     (if in_i128 (unwrap_or 0 (rt_PoolBalance s) + amount)
      then Done () (s\<lparr>rt_PoolBalance := Some (unwrap_or 0 (rt_PoolBalance s) + amount)\<rparr>) else Trap)"
  by (simp add: credit_pool_def run_simps)

lemma reentrant_target_call_run [run_simps]:
  "reentrant_target_call h s =
     (case rt_ReentrantCall s of
        Some c \<Rightarrow> Done c s
      | None \<Rightarrow> (case rt_ReentrantUser s of
          None \<Rightarrow> Trap
        | Some u \<Rightarrow> Done (''get_user_position'', [rh_into_val h u]) s))"
  by (simp add: reentrant_target_call_def run_simps split: option.split)

end
