(* ===== verification/Vesting_Books.thy ===== *)
theory Vesting_Books
  imports Vesting_Machine
begin

text \<open>
  The books of the vesting wallet: what its events say of the amounts paid and returned, and the
  abstract grant that the wallet implements, both without any assumption on the token.
\<close>

subsection \<open>Properties of an initialized wallet\<close>

text \<open>
  The contract of a property of an initialized wallet at a ledger: initialization establishes it,
  successful calls, later ledgers and outside events keep it. Then it holds in every reachable state
  in which the wallet is initialized.
\<close>

locale wallet_property =
  fixes h :: "'w host" and self :: address and outside :: "'w \<Rightarrow> 'w \<Rightarrow> bool" and P :: "u32 \<Rightarrow> 'w wallet \<Rightarrow> bool"
  assumes P_initialized: "wallet_fresh s \<Longrightarrow> schedule_wf tot st cl en \<Longrightarrow>
      P now (initialize_done env s b tok tot st cl en rv adm w)"
    and P_call: "wallet_ok s \<Longrightarrow> P (sequence env) s \<Longrightarrow> host env = h \<Longrightarrow> current_contract env = self \<Longrightarrow>
      vesting_call op env s = Done v t \<Longrightarrow> P (sequence env) t"
    and P_later: "wallet_ok s \<Longrightarrow> P now s \<Longrightarrow> now \<le> later \<Longrightarrow> P later s"
    and P_outside: "wallet_ok s \<Longrightarrow> P now s \<Longrightarrow> outside (v_world s) w \<Longrightarrow> P now (s\<lparr>v_world := w\<rparr>)"
begin

definition holds_at :: "'w vsys \<Rightarrow> bool" where
  "holds_at \<sigma> \<longleftrightarrow> wallet_inv (vwallet \<sigma>) \<and> (vk_Beneficiary (vwallet \<sigma>) \<noteq> None \<longrightarrow> P (vclock \<sigma>) (vwallet \<sigma>))"

lemma holds_call:
  assumes "holds_at \<sigma>" and "host env = h" and "current_contract env = self" and "sequence env = vclock \<sigma>"
    and "vesting_call op env (vwallet \<sigma>) = Done v t"
  shows "P (vclock \<sigma>) t"
proof (cases "vk_Beneficiary (vwallet \<sigma>) = None")
  case True
  with assms(1) have "wallet_fresh (vwallet \<sigma>)" by (auto simp: holds_at_def wallet_inv_def dest: wallet_ok_init)
  with vesting_call_fresh_cases [OF True assms(5)] show ?thesis by (metis P_initialized)
next
  case False
  with assms(1) have "wallet_ok (vwallet \<sigma>)" "P (sequence env) (vwallet \<sigma>)"
    unfolding assms(4) by (auto simp: holds_at_def intro: wallet_inv_ok)
  from P_call [OF this assms(2,3,5)] show ?thesis by (simp add: assms(4))
qed

lemma holds_step:
  assumes "holds_at \<sigma>" and "vsys_step h self outside \<sigma> \<tau>"
  shows "holds_at \<tau>"
proof -
  from assms(1) have inv: "wallet_inv (vwallet \<sigma>)" by (simp add: holds_at_def)
  from assms(2) show ?thesis
  proof cases
    case (vcall env op)
    show ?thesis
    proof (cases "vesting_call op env" "vwallet \<sigma>" rule: invoke_cases)
      case (returned v t)
      with vcall(1) holds_call [OF assms(1) vcall(2-4) returned(1)] vesting_call_inv [OF inv returned(1)] show ?thesis
        by (simp add: holds_at_def wallet_inv_def)
    qed (use assms(1) vcall(1) in simp_all)
  next
    case (vledger later)
    with assms(1) show ?thesis by (auto simp: holds_at_def intro: P_later wallet_inv_ok)
  next
    case (voutside w)
    with assms(1) show ?thesis by (auto simp: holds_at_def wallet_inv_world intro: P_outside wallet_inv_ok)
  qed
qed

sublocale initialized: inductive_invariant "vsys_start ok_world" "vsys_step h self outside" holds_at for ok_world
  by unfold_locales (simp add: vsys_start_def holds_at_def wallet_inv_def wallet_fresh_fields(1), rule holds_step)

lemma reach_holds:
  "reach (vsys_start ok_world) (vsys_step h self outside) \<sigma> \<Longrightarrow> vk_Beneficiary (vwallet \<sigma>) \<noteq> None \<Longrightarrow>
     P (vclock \<sigma>) (vwallet \<sigma>)"
  using initialized.reach_invariant [of ok_world \<sigma>] by (simp add: holds_at_def)

end

subsection \<open>The books\<close>

text \<open>What the events say: the amounts released, the amounts returned, the number of releases.\<close>

fun paid_in :: "vesting_event list \<Rightarrow> i128" where
  "paid_in [] = 0"
| "paid_in (VestReleased b x c # evs) = x + paid_in evs"
| "paid_in (ev # evs) = paid_in evs"

fun returned_in :: "vesting_event list \<Rightarrow> i128" where
  "returned_in [] = 0"
| "returned_in (VestRevoked adm b v u # evs) = u + returned_in evs"
| "returned_in (ev # evs) = returned_in evs"

fun releases_in :: "vesting_event list \<Rightarrow> nat" where
  "releases_in [] = 0"
| "releases_in (VestReleased b x c # evs) = Suc (releases_in evs)"
| "releases_in (ev # evs) = releases_in evs"

text \<open>Every release carries the running total of the releases so far.\<close>

fun totals_ok :: "i128 \<Rightarrow> vesting_event list \<Rightarrow> bool" where
  "totals_ok acc [] = True"
| "totals_ok acc (VestReleased b x c # evs) = (c = acc + x \<and> totals_ok c evs)"
| "totals_ok acc (ev # evs) = totals_ok acc evs"

lemma books_append [simp]:
  "paid_in (evs @ evs') = paid_in evs + paid_in evs'"
  "returned_in (evs @ evs') = returned_in evs + returned_in evs'"
  "releases_in (evs @ evs') = releases_in evs + releases_in evs'"
  by (induction evs rule: paid_in.induct; simp)+

lemma totals_ok_append [simp]: "totals_ok acc (evs @ evs') \<longleftrightarrow> totals_ok acc evs \<and> totals_ok (acc + paid_in evs) evs'"
  by (induction acc evs rule: totals_ok.induct) (auto simp: add.assoc)

text \<open>The most that is ever paid under the terms as they stand.\<close>

definition w_limit :: "'w wallet \<Rightarrow> i128" where
  "w_limit s = (if w_revoked s then unwrap_or 0 (vk_RevokedVested s) else w_total s)"

text \<open>
  The books agree with the storage, and nothing is promised twice: what was released, what was returned
  and what may still be released make up the total, unless an emergency withdrawal cut the rest.
\<close>

definition books_ok :: "u32 \<Rightarrow> 'w wallet \<Rightarrow> bool" where
  "books_ok now s \<longleftrightarrow> w_released s = paid_in (v_events s) \<and> totals_ok 0 (v_events s) \<and>
     unat (unwrap_or 0 (vk_ReleaseCount s)) = releases_in (v_events s) \<and>
     w_released s + returned_in (v_events s) \<le> w_total s \<and>
     (\<not> w_revoked s \<longrightarrow> w_released s \<le> w_vested s now) \<and>
     (w_limit s + returned_in (v_events s) = w_total s \<and> w_released s \<le> w_limit s \<or> w_revoked s \<and> w_limit s = 0)"

lemma w_vested_limit: "wallet_ok s \<Longrightarrow> w_vested s now \<le> w_limit s"
  using w_vested_bounds(2) [of s now] by (auto simp: w_limit_def w_vested_def)

lemma books_paid:
  assumes "wallet_ok s" and "books_ok now s" and "r = w_releasable s now" and "0 < r"
    and "u32_checked_add (unwrap_or 0 (vk_ReleaseCount s)) 1 = Some c"
  shows "books_ok now (release_paid env s b r c w)"
proof -
  let ?t = "release_paid env s b r c w"
  have v: "w_released s + r = w_vested s now" and "w_vested s now \<noteq> 0"
    using assms(3,4) wallet_ok_released(1) [OF assms(1)] by (auto simp: w_releasable_def max_def split: if_splits)
  moreover from this have "w_limit s \<noteq> 0"
    using w_vested_bounds(1) [OF assms(1), of now] w_vested_limit [OF assms(1), of now] by linarith
  moreover have "w_released ?t = w_released s + r" "w_limit ?t = w_limit s" "w_revoked ?t = w_revoked s"
    "w_vested ?t now = w_vested s now" "w_total ?t = w_total s"
    "v_events ?t = v_events s @ [VestReleased b r (w_released s + r)]" "vk_ReleaseCount ?t = Some c"
    by (simp_all add: release_paid_def w_released_def w_limit_def w_revoked_def w_vested_def w_total_def)
  moreover have "unat c = Suc (unat (unwrap_or 0 (vk_ReleaseCount s)))"
    using u32_checked_add_1_Some [OF assms(5)] ..
  ultimately show ?thesis
    using assms(2) w_vested_limit [OF assms(1), of now] by (auto simp: books_ok_def)
qed

lemma books_revoked:
  assumes "books_ok now s" and "\<not> w_revoked s"
  shows "books_ok now (revoke_done env s adm b (w_vested s now) (w_total s - w_vested s now) w)"
  using assms by (auto simp: books_ok_def revoke_done_def w_limit_def w_revoked_def w_released_def w_total_def)

lemma books_drained:
  assumes "books_ok now s"
  shows "books_ok now (emergency_done env s w)"
  using assms by (auto simp: books_ok_def emergency_done_def w_limit_def w_revoked_def w_released_def w_total_def)

lemma books_initialized:
  assumes "wallet_fresh s" and "schedule_wf tot st cl en"
  shows "books_ok now (initialize_done env s b tok tot st cl en rv adm w)"
proof -
  have "v_events s = []" "vk_ReleaseCount s = None" "vk_Revoked s = None"
    using arg_cong [OF assms(1) [unfolded wallet_fresh_def], of v_events]
      arg_cong [OF assms(1) [unfolded wallet_fresh_def], of vk_ReleaseCount] wallet_fresh_fields(2) [OF assms(1)]
    by (simp_all add: empty_wallet_def)
  with vested_at_bounds(1) [OF assms(2), of now] assms(2) show ?thesis
    by (simp add: books_ok_def initialize_done_def w_limit_def w_revoked_def w_released_def w_total_def w_vested_def
        schedule_wf_def)
qed

lemma books_frame:
  "books_ok now (v_bumped env s) = books_ok now s" "books_ok now (s\<lparr>vk_Beneficiary := b\<rparr>) = books_ok now s"
  "books_ok now (s\<lparr>vk_Admin := a, v_events := v_events s @ [VestAdmXfr c d]\<rparr>) = books_ok now s"
  "books_ok now (s\<lparr>v_world := w\<rparr>) = books_ok now s"
  by (simp_all add: books_ok_def w_limit_def)

interpretation books: wallet_property h self outside books_ok for h self outside
proof unfold_locales
  fix s t :: "'w wallet" and env op v
  assume s: "wallet_ok s" "books_ok (sequence env) s" and call: "vesting_call op env s = Done v t"
  from s(1) call show "books_ok (sequence env) t"
  proof (cases rule: vesting_call_cases)
    case (paid b tok r held w1 w2 c)
    with books_paid [OF s paid(5,6,12)] show ?thesis by simp
  next
    case (revoked b tok adm fdr u w)
    with books_revoked [OF s(2) revoked(7)] show ?thesis by simp
  next
    case (admin adm a)
    with s(2) show ?thesis using books_frame(3) [of "sequence env" "v_bumped env s"] by (simp add: books_frame)
  qed (use s(2) in \<open>auto simp: books_frame books_drained\<close>)
next
  fix s :: "'w wallet" and now later
  assume "wallet_ok s" "books_ok now s" "now \<le> later"
  with w_vested_mono [of s now later] show "books_ok later s" by (auto simp: books_ok_def)
qed (simp_all add: books_initialized books_frame)

subsection \<open>The abstract grant\<close>

text \<open>
  What a wallet promises, without its schedule, its token and its keys: a grant is funded once, pays
  within its limit, and its limit can be cut once by a revocation, not below what was paid, or closed.
\<close>

datatype grant_status = Pending | Running | Frozen

record grant =
  gr_status :: grant_status
  gr_total :: i128
  gr_paid :: i128
  gr_limit :: i128

definition pending_grant :: grant where
  "pending_grant = \<lparr>gr_status = Pending, gr_total = 0, gr_paid = 0, gr_limit = 0\<rparr>"

inductive grant_step :: "grant \<Rightarrow> grant \<Rightarrow> bool" where
  fund: "gr_status g = Pending \<Longrightarrow> 0 < amount \<Longrightarrow> amount \<le> MAX_TOTAL_AMOUNT \<Longrightarrow>
    grant_step g \<lparr>gr_status = Running, gr_total = amount, gr_paid = 0, gr_limit = amount\<rparr>"
| pay: "gr_status g \<noteq> Pending \<Longrightarrow> 0 < x \<Longrightarrow> gr_paid g + x \<le> gr_limit g \<Longrightarrow>
    grant_step g (g\<lparr>gr_paid := gr_paid g + x\<rparr>)"
| cut: "gr_status g = Running \<Longrightarrow> gr_paid g \<le> v \<Longrightarrow> v \<le> gr_total g \<Longrightarrow>
    grant_step g (g\<lparr>gr_status := Frozen, gr_limit := v\<rparr>)"
| close: "gr_status g \<noteq> Pending \<Longrightarrow> grant_step g (g\<lparr>gr_status := Frozen, gr_limit := 0\<rparr>)"

definition grant_of :: "'w wallet \<Rightarrow> grant" where
  "grant_of s = (if vk_Beneficiary s = None then pending_grant
     else \<lparr>gr_status = (if w_revoked s then Frozen else Running), gr_total = w_total s,
       gr_paid = w_released s, gr_limit = w_limit s\<rparr>)"

lemma grant_of_simps:
  "vk_Beneficiary s = Some b \<Longrightarrow> gr_status (grant_of s) = (if w_revoked s then Frozen else Running)"
  "vk_Beneficiary s = Some b \<Longrightarrow> gr_total (grant_of s) = w_total s"
  "vk_Beneficiary s = Some b \<Longrightarrow> gr_paid (grant_of s) = w_released s"
  "vk_Beneficiary s = Some b \<Longrightarrow> gr_limit (grant_of s) = w_limit s"
  "vk_Beneficiary s = None \<Longrightarrow> grant_of s = pending_grant"
  by (simp_all add: grant_of_def)

lemma call_refines:
  assumes "wallet_ok s" and "books_ok (sequence env) s" and "vesting_call op env s = Done v t"
  shows "grant_of t = grant_of s \<or> grant_step (grant_of s) (grant_of t)"
proof -
  obtain b where b: "vk_Beneficiary s = Some b" using assms(1) by (rule wallet_okE)
  from assms(1,3) show ?thesis
  proof (cases rule: vesting_call_cases)
    case (paid b tok r held w1 w2 c)
    have "w_released s + r \<le> w_limit s"
      using paid(5,6) w_vested_limit [OF assms(1), of "sequence env"]
      by (auto simp: w_releasable_def max_def split: if_splits)
    moreover have "grant_of t = (grant_of s)\<lparr>gr_paid := gr_paid (grant_of s) + r\<rparr>"
      using b paid(11) by (simp add: grant_of_def release_paid_def w_revoked_def w_total_def w_released_def w_limit_def)
    ultimately show ?thesis
      using b paid(6) grant_step.pay [of "grant_of s" r] by (simp add: grant_of_simps)
  next
    case (revoked b' tok adm fdr u w)
    have "grant_of t = (grant_of s)\<lparr>gr_status := Frozen, gr_limit := w_vested s (sequence env)\<rparr>"
      using b revoked(11) by (simp add: grant_of_def revoke_done_def w_revoked_def w_total_def w_released_def w_limit_def)
    moreover have "w_released s \<le> w_vested s (sequence env)" "w_vested s (sequence env) \<le> w_total s"
      using assms(2) revoked(7) w_vested_bounds(2) [OF assms(1)] by (auto simp: books_ok_def)
    ultimately show ?thesis
      using b revoked(7) grant_step.cut [of "grant_of s" "w_vested s (sequence env)"] by (simp add: grant_of_simps)
  next
    case (drained tok adm x w1 w2)
    have "grant_of t = (grant_of s)\<lparr>gr_status := Frozen, gr_limit := 0\<rparr>"
      using b drained(8) by (simp add: grant_of_def emergency_done_def w_revoked_def w_total_def w_released_def w_limit_def)
    then show ?thesis using b grant_step.close [of "grant_of s"] by (simp add: grant_of_simps)
  qed (use b in \<open>simp_all add: grant_of_def w_limit_def\<close>)
qed

lemma first_call_refines:
  assumes "wallet_fresh s" and "vesting_call op env s = Done v t"
  shows "grant_step (grant_of s) (grant_of t)"
proof -
  have none: "vk_Beneficiary s = None" using wallet_fresh_fields(1) [OF assms(1)] .
  from vesting_call_fresh_cases [OF none assms(2)] obtain b tok tot st cl en rv adm w where
    i: "schedule_wf tot st cl en" "t = initialize_done env s b tok tot st cl en rv adm w" .
  have "grant_of t = \<lparr>gr_status = Running, gr_total = tot, gr_paid = 0, gr_limit = tot\<rparr>"
    using i(2) wallet_fresh_fields(2) [OF assms(1)]
    by (simp add: grant_of_def initialize_done_def w_revoked_def w_total_def w_released_def w_limit_def)
  with i(1) none show ?thesis
    using grant_step.fund [of "grant_of s" tot] by (simp add: grant_of_simps pending_grant_def schedule_wf_def)
qed

interpretation grant: simulation "vsys_start ok_world" "vsys_step h self outside" "books.holds_at"
  "\<lambda>\<sigma>. grant_of (vwallet \<sigma>)" "\<lambda>g. g = pending_grant" grant_step for ok_world :: "'w \<Rightarrow> bool" and h self outside
proof unfold_locales
  fix \<sigma> :: "'w vsys"
  assume "vsys_start ok_world \<sigma>"
  then show "grant_of (vwallet \<sigma>) = pending_grant"
    by (simp add: vsys_start_def grant_of_simps wallet_fresh_fields(1))
next
  fix \<sigma> \<tau> :: "'w vsys"
  assume inv: "books.holds_at \<sigma>" and "vsys_step h self outside \<sigma> \<tau>"
  from this(2) show "grant_of (vwallet \<tau>) = grant_of (vwallet \<sigma>) \<or> grant_step (grant_of (vwallet \<sigma>)) (grant_of (vwallet \<tau>))"
  proof cases
    case (vcall env op)
    show ?thesis
    proof (cases "vesting_call op env" "vwallet \<sigma>" rule: invoke_cases)
      case (returned v t)
      show ?thesis
      proof (cases "vk_Beneficiary (vwallet \<sigma>) = None")
        case True
        with inv have "wallet_fresh (vwallet \<sigma>)" by (auto simp: books.holds_at_def wallet_inv_def dest: wallet_ok_init)
        with returned vcall(1) show ?thesis by (simp add: first_call_refines)
      next
        case False
        with inv have "wallet_ok (vwallet \<sigma>)" "books_ok (sequence env) (vwallet \<sigma>)"
          unfolding vcall(4) by (auto simp: books.holds_at_def intro: wallet_inv_ok)
        with returned vcall(1) show ?thesis by (simp add: call_refines)
      qed
    qed (use vcall(1) in simp_all)
  qed (simp_all add: grant_of_def w_limit_def)
qed

end
