(* ===== verification/Vesting_Properties.thy ===== *)
theory Vesting_Properties
  imports Mock_Tokens Vesting_Books
begin

text \<open>
  The properties of the vesting wallet and of the mock tokens, each with the concrete run that
  shows its hypotheses can hold. The runs use the repository's \<open>MockFeeToken\<close> without a fee as the
  token of the wallet.
\<close>

subsection \<open>A concrete wallet\<close>

text \<open>\<open>ADM\<close> funds \<open>BEN\<close> with 1000 units of \<open>TOK\<close> over the ledgers 10 to 110, cliff at 30.\<close>

definition demo_token :: fee_token where
  "demo_token = \<lparr>ft_Balance = [''ADM'' \<mapsto> 5000], ft_FeeBps = None\<rparr>"

definition demo_env :: "u32 \<Rightarrow> address list \<Rightarrow> fee_token env" where
  "demo_env now signers = \<lparr>host = fee_host ''TOK'', sequence = now, current_contract = ''WALLET'',
     authorized = (\<lambda>a. a \<in> set signers)\<rparr>"

definition demo_op :: vesting_op where
  "demo_op = OpInitialize ''BEN'' ''TOK'' 1000 10 30 110 True ''ADM''"

definition demo_fresh :: "fee_token vsys" where
  "demo_fresh = \<lparr>vclock = 5, vwallet = empty_wallet 0 demo_token\<rparr>"

definition demo_wallet :: "fee_token wallet" where
  "demo_wallet = initialize_done (demo_env 5 [''ADM'']) (empty_wallet 0 demo_token)
     ''BEN'' ''TOK'' 1000 10 30 110 True ''ADM''
     \<lparr>ft_Balance = [''ADM'' \<mapsto> 4000, ''WALLET'' \<mapsto> 1000], ft_FeeBps = None\<rparr>"

definition demo_sys :: "u32 \<Rightarrow> fee_token vsys" where
  "demo_sys now = \<lparr>vclock = now, vwallet = demo_wallet\<rparr>"

lemma demo_fields [simp]:
  "vk_Beneficiary demo_wallet = Some ''BEN''" "vk_Token demo_wallet = Some ''TOK''"
  "vk_TotalAmount demo_wallet = Some 1000" "vk_StartLedger demo_wallet = Some 10"
  "vk_CliffLedger demo_wallet = Some 30" "vk_EndLedger demo_wallet = Some 110"
  "vk_Admin demo_wallet = Some ''ADM''" "vk_Funder demo_wallet = Some ''ADM''"
  "vk_Revocable demo_wallet = Some True" "vk_ReleaseCount demo_wallet = None"
  "w_revoked demo_wallet = False" "w_released demo_wallet = 0" "w_total demo_wallet = 1000"
  "v_world demo_wallet = \<lparr>ft_Balance = [''ADM'' \<mapsto> 4000, ''WALLET'' \<mapsto> 1000], ft_FeeBps = None\<rparr>"
  by (simp_all add: demo_wallet_def initialize_done_def empty_wallet_def w_revoked_def w_released_def w_total_def)

lemma demo_schedule [simp]: "schedule_wf 1000 10 30 110"
  by (simp add: schedule_wf_def MAX_TOTAL_AMOUNT_eq)

lemma demo_wallet_ok [simp]: "wallet_ok demo_wallet"
  unfolding demo_wallet_def
  by (rule initialize_done_ok) (simp_all add: wallet_fresh_def empty_wallet_def zero_address_def)

lemma demo_vested: "w_vested demo_wallet now = vested_at 1000 10 30 110 now"
  by (simp add: w_vested_def)

lemma demo_initialize:
  "vesting_call demo_op (demo_env 5 [''ADM'']) (empty_wallet 0 demo_token) = Done (VUnit ()) demo_wallet"
proof -
  have "callee (fee_transfer ''ADM'' ''WALLET'' 1000) demo_token =
      Some ((), \<lparr>ft_Balance = [''ADM'' \<mapsto> 4000, ''WALLET'' \<mapsto> 1000], ft_FeeBps = None\<rparr>)"
    by (simp add: callee_def fee_transfer_run Let_def demo_token_def fee_bal_def fee_of_def in_i128_def
        i128_saturating_mul_def i128_saturate_def)
  moreover have "v_world (empty_wallet 0 demo_token) = demo_token" "vk_Beneficiary (empty_wallet 0 demo_token) = None"
    by (simp_all add: empty_wallet_def)
  ultimately show ?thesis
    by (simp add: demo_op_def demo_env_def run_simps initialize_run zero_address_def demo_wallet_def)
qed

lemma demo_token_free [simp]: "fee_free demo_token"
  by (simp add: fee_free_def demo_token_def fee_bal_def in_i128_def)

lemma demo_reach:
  assumes "5 \<le> now"
  shows "reach (vsys_start (\<lambda>w. fee_free w \<and> 0 \<le> fee_bal w ''WALLET''))
    (vsys_step (fee_host ''TOK'') ''WALLET'' (fee_outside ''WALLET'')) (demo_sys now)"
proof -
  let ?reach = "reach (vsys_start (\<lambda>w. fee_free w \<and> 0 \<le> fee_bal w ''WALLET''))
    (vsys_step (fee_host ''TOK'') ''WALLET'' (fee_outside ''WALLET''))"
  have "?reach demo_fresh"
    by (rule reach_start) (simp add: vsys_start_def demo_fresh_def wallet_fresh_def empty_wallet_def,
      simp add: demo_token_def fee_bal_def)
  moreover have "vsys_step (fee_host ''TOK'') ''WALLET'' (fee_outside ''WALLET'') demo_fresh (demo_sys 5)"
    using vcall [of "demo_env 5 [''ADM'']" "fee_host ''TOK''" "''WALLET''" demo_fresh _ demo_op] demo_initialize
    by (simp add: demo_env_def demo_fresh_def demo_sys_def invoke_def)
  moreover have "vsys_step (fee_host ''TOK'') ''WALLET'' (fee_outside ''WALLET'') (demo_sys 5) (demo_sys now)"
    using vledger [of "demo_sys 5" now] assms by (simp add: demo_sys_def)
  ultimately show ?thesis
    by (blast intro: reach_step)
qed

subsection \<open>The schedule\<close>

text \<open>
  C19. \<open>compute_vested\<close> is the linear schedule with a cliff: on a schedule that \<open>initialize\<close> accepts it
  returns at every ledger, without an overflow error and without writing, exactly nothing before
  the cliff, everything from the end on, and in between the amount \<open>v\<close> with
  \<open>v \<le> total * elapsed / duration < v + 1\<close>. The amount stays between 0 and the total.
\<close>

theorem compute_vested_schedule:
  assumes "schedule_wf tot st cl en" and "vk_TotalAmount s = Some tot" and "vk_StartLedger s = Some st"
    and "vk_CliffLedger s = Some cl" and "vk_EndLedger s = Some en" and "\<not> w_revoked s"
  shows "\<exists>v. compute_vested env s = Done v s \<and> 0 \<le> v \<and> v \<le> tot \<and>
    (sequence env < cl \<longrightarrow> v = 0) \<and> (en \<le> sequence env \<longrightarrow> v = tot) \<and>
    (cl \<le> sequence env \<and> sequence env < en \<longrightarrow>
       v * (uint en - uint st) \<le> tot * (uint (sequence env) - uint st) \<and>
       tot * (uint (sequence env) - uint st) < (v + 1) * (uint en - uint st))"
proof -
  let ?v = "vested_at tot st cl en (sequence env)" and ?d = "uint en - uint st"
  let ?p = "tot * (uint (sequence env) - uint st)"
  have "sequence env < cl \<longrightarrow> ?v = 0" and "en \<le> sequence env \<longrightarrow> ?v = tot"
    using assms(1) by (auto simp: vested_at_def schedule_wf_def)
  moreover have "?v * ?d \<le> ?p \<and> ?p < (?v + 1) * ?d" if "cl \<le> sequence env" "sequence env < en"
    using vested_at_linear [OF assms(1) that] div_floor [of ?d ?p] by simp
  ultimately show ?thesis
    using compute_vested_fields [OF assms(2-5,1,6)] vested_at_bounds [OF assms(1)] by blast
qed

theorem compute_vested_schedule_witness:
  "\<exists>v. compute_vested (demo_env 60 []) demo_wallet = Done v demo_wallet \<and>
     v * (uint (110::u32) - uint (10::u32)) \<le> 1000 * (uint (60::u32) - uint (10::u32))"
  using compute_vested_schedule [OF demo_schedule, of demo_wallet "demo_env 60 []"]
  by (auto simp: demo_env_def)

text \<open>
  Vesting never goes back: at a later ledger \<open>compute_vested\<close> returns at least as much, whether
  the schedule is running or frozen by a revocation.
\<close>

lemma compute_vested_monotone:
  assumes "wallet_ok s" and "sequence env \<le> sequence env'"
  shows "\<exists>v v'. compute_vested env s = Done v s \<and> compute_vested env' s = Done v' s \<and> v \<le> v'"
  using compute_vested_run [OF assms(1)] w_vested_mono [OF assms] by auto

subsection \<open>Invariants of every run\<close>

text \<open>
  C6. However calls, ledgers and outside events are interleaved, a wallet is either untouched or well
  formed: all schedule keys are present, the schedule is one that \<open>initialize\<close> accepts,
  \<open>0 \<le> released \<le> total\<close>, and the frozen amount exists exactly when the schedule is revoked and lies
  within the total. No entry point can then hit a missing key.
\<close>

theorem wallet_invariant:
  assumes "reach (vsys_start ok_world) (vsys_step h self outside) \<sigma>"
  shows "wallet_inv (vwallet \<sigma>)"
  using assms by (rule vesting_wf.reach_invariant)

theorem wallet_invariant_witness: "wallet_inv (vwallet (demo_sys 60))"
  using wallet_invariant [OF demo_reach] by simp

text \<open>From a well-formed wallet on, no sequence of steps changes the terms of the grant.\<close>

lemma terms_kept:
  assumes "wallet_ok (vwallet \<sigma>)" and "reach (\<lambda>\<rho>. \<rho> = \<sigma>) (vsys_step h self outside) \<tau>"
  shows "same_terms (vwallet \<sigma>) (vwallet \<tau>)"
  using vesting_terms.reach_invariant [of \<sigma> h self outside \<tau>] assms by simp

text \<open>
  C3. Solvency. With a lawful token whose balance at the wallet nobody else can lower, every reachable
  wallet holds at least what it owes: the whole unreleased rest of a running schedule, or the
  unreleased part of the frozen amount after a revocation.
\<close>

theorem wallet_solvent:
  assumes "wallet_custody invar bal h tok self outside"
    and "reach (vsys_start (\<lambda>w. invar w \<and> 0 \<le> bal w self)) (vsys_step h self outside) \<sigma>"
    and "vk_Beneficiary (vwallet \<sigma>) \<noteq> None" and "vk_Token (vwallet \<sigma>) = Some tok"
  shows "w_owed (vwallet \<sigma>) \<le> bal (v_world (vwallet \<sigma>)) self"
proof -
  have "wallet_custody.holds invar bal self = (\<lambda>w. invar w \<and> 0 \<le> bal w self)"
    by (rule ext) (rule wallet_custody.holds_def [OF assms(1)])
  then show ?thesis
    using wallet_custody.reach_solvent(2) [OF assms(1) _ assms(4,3)] assms(2)
      wallet_custody.covers_def [OF assms(1)] by simp
qed

theorem wallet_solvent_witness: "w_owed demo_wallet \<le> fee_bal (v_world demo_wallet) ''WALLET''"
  using wallet_solvent [OF fee.wallet_custody_axioms demo_reach [of 60]] by (simp add: demo_sys_def)

lemma w_vested_end:
  "wallet_ok s \<Longrightarrow> \<not> w_revoked s \<Longrightarrow> vk_EndLedger s = Some en \<Longrightarrow> en \<le> now \<Longrightarrow> w_vested s now = w_total s"
  by (auto simp: w_vested_def vested_at_def wallet_ok_def schedule_wf_def)

lemma claim_at_end:
  assumes "wallet_ok s" and "vesting_release env s = Done (w_releasable s (sequence env)) t"
    and "w_released t = w_released s + w_releasable s (sequence env)"
    and "\<not> w_revoked s" and "vk_EndLedger s = Some en" and "en \<le> sequence env"
  shows "is_fully_released later t = Done True (v_bumped later t)"
proof -
  have call: "vesting_call OpRelease env s = Done (VAmount (w_releasable s (sequence env))) t"
    using assms(2) by (simp add: run_simps)
  have ok: "wallet_ok t" using assms(1) call by (rule vesting_call_ok)
  have "w_total t = w_total s"
    using vesting_call_terms [OF assms(1) call] by (simp add: same_terms_def w_total_def)
  moreover have "w_released t = w_total s"
    using assms(3) w_vested_end [OF assms(1,4-6)] wallet_ok_released [OF assms(1)] by (simp add: w_releasable_def)
  ultimately show ?thesis by (simp add: is_fully_released_run [OF ok])
qed

text \<open>
  C7. The beneficiary can always claim. With a lawful token that honours payable transfers, in every
  reachable state a \<open>release\<close> signed by the beneficiary returns, pays the beneficiary exactly what
  has vested and is not yet released, and books it; whatever was claimed before, the released amount is
  then all that has vested, and after the end of a schedule that was not revoked one claim completes the
  grant. (The payee's balance must stay an \<open>i128\<close>, the release counter must not be at its maximum,
  and the beneficiary is not the wallet itself.)
\<close>

theorem beneficiary_can_claim:
  assumes "paying_custody invar bal h tok self outside"
    and "reach (vsys_start (\<lambda>w. invar w \<and> 0 \<le> bal w self)) (vsys_step h self outside) \<sigma>"
    and "vk_Token (vwallet \<sigma>) = Some tok" and "vk_Beneficiary (vwallet \<sigma>) = Some b"
    and "host env = h" and "current_contract env = self" and "sequence env = vclock \<sigma>"
    and "authorized env b" and "b \<noteq> self" and "vk_ReleaseCount (vwallet \<sigma>) \<noteq> Some u32_max"
    and "in_i128 (bal (v_world (vwallet \<sigma>)) b + w_releasable (vwallet \<sigma>) (vclock \<sigma>))"
  shows "\<exists>t. vesting_release env (vwallet \<sigma>) = Done (w_releasable (vwallet \<sigma>) (vclock \<sigma>)) t \<and>
    bal (v_world t) b = bal (v_world (vwallet \<sigma>)) b + w_releasable (vwallet \<sigma>) (vclock \<sigma>) \<and>
    w_released t = max (w_released (vwallet \<sigma>)) (w_vested (vwallet \<sigma>) (vclock \<sigma>)) \<and>
    (\<forall>en. \<not> w_revoked (vwallet \<sigma>) \<and> vk_EndLedger (vwallet \<sigma>) = Some en \<and> en \<le> vclock \<sigma> \<longrightarrow>
      is_fully_released later t = Done True (v_bumped later t))"
proof -
  from assms(1) have cust: "wallet_custody invar bal h tok self outside"
    by (rule paying_custody.axioms)
  have "wallet_custody.holds invar bal self = (\<lambda>w. invar w \<and> 0 \<le> bal w self)"
    by (rule ext) (rule wallet_custody.holds_def [OF cust])
  with assms(2-4) have ok: "wallet_ok (vwallet \<sigma>)"
    and "wallet_custody.covers invar bal self (sequence env) (vwallet \<sigma>)"
    using wallet_custody.reach_solvent [OF cust, of \<sigma>] unfolding assms(7) by auto
  from paying_custody.release_succeeds [OF assms(1) this assms(5,6,3,4,8-10)] assms(7,11) obtain t where
    t: "vesting_release env (vwallet \<sigma>) = Done (w_releasable (vwallet \<sigma>) (sequence env)) t"
      "bal (v_world t) b = bal (v_world (vwallet \<sigma>)) b + w_releasable (vwallet \<sigma>) (sequence env)"
      "w_released t = w_released (vwallet \<sigma>) + w_releasable (vwallet \<sigma>) (sequence env)" by auto
  moreover have "w_released t = max (w_released (vwallet \<sigma>)) (w_vested (vwallet \<sigma>) (sequence env))"
    using t(3) by (simp add: w_releasable_def max_def)
  ultimately show ?thesis
    using claim_at_end [OF ok t(1,3)] unfolding assms(7) by blast
qed

theorem beneficiary_can_claim_witness:
  "\<exists>t. vesting_release (demo_env 60 [''BEN'']) demo_wallet = Done 500 t \<and>
     fee_bal (v_world t) ''BEN'' = 500 \<and> w_released t = 500"
proof -
  have r: "w_releasable demo_wallet 60 = 500" "w_vested demo_wallet 60 = 500"
    by (simp_all add: w_releasable_def demo_vested vested_at_def)
  show ?thesis
    using beneficiary_can_claim [OF fee.paying_custody_axioms demo_reach [of 60], of "''BEN''" "demo_env 60 [''BEN'']"]
    by (auto simp: demo_sys_def demo_env_def r fee_bal_def in_i128_def)
qed

text \<open>
  C11. The wallet implements the abstract grant, whatever token it holds and whatever the token does: a
  grant is funded once, every payment stays within its limit, a revocation cuts the limit once and never
  below what was paid, and an emergency withdrawal closes it. No other change of what is promised is
  possible, and the terms behind it are immutable: once the wallet is initialized, no later step changes
  its token, total, start, cliff, end, revocability or funder, lowers the released amount, or undoes a
  revocation.
\<close>

theorem wallet_refinement:
  assumes "reach (vsys_start ok_world) (vsys_step h self outside) \<sigma>"
  shows "reach (\<lambda>g. g = pending_grant) grant_step (grant_of (vwallet \<sigma>)) \<and>
    (\<forall>\<tau>. vk_Beneficiary (vwallet \<sigma>) \<noteq> None \<and> reach (\<lambda>\<rho>. \<rho> = \<sigma>) (vsys_step h self outside) \<tau> \<longrightarrow>
      same_terms (vwallet \<sigma>) (vwallet \<tau>))"
  using grant.reach_abs [OF assms] terms_kept [of \<sigma> h self outside] wallet_inv_ok [OF vesting_wf.reach_invariant [OF assms]]
  by blast

lemma demo_later: "reach (\<lambda>\<rho>. \<rho> = demo_sys 60) (vsys_step (fee_host ''TOK'') ''WALLET'' (fee_outside ''WALLET'')) (demo_sys 90)"
proof -
  have "vsys_step (fee_host ''TOK'') ''WALLET'' (fee_outside ''WALLET'') (demo_sys 60) (demo_sys 90)"
    using vledger [of "demo_sys 60" 90] by (simp add: demo_sys_def)
  then show ?thesis by (blast intro: reach_step reach_start)
qed

theorem wallet_refinement_witness:
  "reach (\<lambda>g. g = pending_grant) grant_step \<lparr>gr_status = Running, gr_total = 1000, gr_paid = 0, gr_limit = 1000\<rparr> \<and>
   same_terms (vwallet (demo_sys 60)) (vwallet (demo_sys 90))"
proof -
  have "grant_of (vwallet (demo_sys 60)) = \<lparr>gr_status = Running, gr_total = 1000, gr_paid = 0, gr_limit = 1000\<rparr>"
    "vk_Beneficiary (vwallet (demo_sys 60)) \<noteq> None"
    by (simp_all add: grant_of_def demo_sys_def w_limit_def)
  with wallet_refinement [OF demo_reach [of 60]] demo_later show ?thesis by auto
qed

text \<open>
  C18. The events are the wallet's books: the amounts of the releases add up to the released amount, each
  release carries the running total, \<open>release_count\<close> is their number, and releases and the returned
  remainder never exceed the grant. Together with what the wallet still owes they make up the whole
  grant, unless an emergency withdrawal cancelled the rest.
\<close>

theorem wallet_log_accounts:
  assumes "reach (vsys_start ok_world) (vsys_step h self outside) \<sigma>" and "s = vwallet \<sigma>"
    and "vk_Beneficiary s \<noteq> None"
  shows "released_amount env s = Done (paid_in (v_events s)) (v_bumped env s) \<and> totals_ok 0 (v_events s) \<and>
    (\<exists>c. release_count env s = Done c (v_bumped env s) \<and> unat c = releases_in (v_events s)) \<and>
    paid_in (v_events s) + returned_in (v_events s) \<le> w_total s \<and>
    (paid_in (v_events s) + returned_in (v_events s) + w_owed s = w_total s \<or> w_revoked s \<and> vk_RevokedVested s = Some 0)"
proof -
  have books: "books_ok (vclock \<sigma>) s" using books.reach_holds [OF assms(1)] assms(2,3) by simp
  have ok: "wallet_ok s"
    using vesting_wf.reach_invariant [OF assms(1)] assms(2,3) by (auto intro: wallet_inv_ok)
  have "release_count env s = Done (unwrap_or 0 (vk_ReleaseCount s)) (v_bumped env s)"
    using assms(3) by (simp add: release_count_def read_release_count_def run_simps)
  moreover have "w_revoked s \<longrightarrow> vk_RevokedVested s \<noteq> None"
    using ok by (auto simp: wallet_ok_def w_revoked_def)
  ultimately show ?thesis
    using books ok by (auto simp: books_ok_def released_amount_run w_owed_def w_limit_def split: if_splits)
qed

lemma demo_release:
  "\<exists>t. vesting_release (demo_env 60 [''BEN'']) demo_wallet = Done 500 t \<and> vk_Beneficiary t = Some ''BEN'' \<and>
     v_events t = v_events demo_wallet @ [VestReleased ''BEN'' 500 500]"
proof -
  have "w_releasable demo_wallet 60 = 500"
    by (simp add: w_releasable_def demo_vested vested_at_def)
  then show ?thesis
    by (simp add: release_run [OF demo_wallet_ok demo_fields(1,2) refl] demo_env_def release_paid_def u32_checked_add_def
        callee_def fee_transfer_run Let_def fee_bal_def fee_of_def in_i128_def i128_saturating_mul_def i128_saturate_def)
qed

theorem wallet_log_accounts_witness:
  "\<exists>t. vesting_release (demo_env 60 [''BEN'']) demo_wallet = Done 500 t \<and>
     released_amount (demo_env 60 []) t = Done 500 (v_bumped (demo_env 60 []) t)"
proof -
  from demo_release obtain t where t: "vesting_release (demo_env 60 [''BEN'']) demo_wallet = Done 500 t"
    "vk_Beneficiary t = Some ''BEN''" "v_events t = v_events demo_wallet @ [VestReleased ''BEN'' 500 500]" by blast
  let ?step = "vsys_step (fee_host ''TOK'') ''WALLET'' (fee_outside ''WALLET'')"
  let ?\<sigma> = "(demo_sys 60)\<lparr>vwallet := snd (invoke (vesting_call OpRelease (demo_env 60 [''BEN''])) (vwallet (demo_sys 60)))\<rparr>"
  have "?step (demo_sys 60) ?\<sigma>"
    by (rule vcall) (simp_all add: demo_env_def demo_sys_def)
  then have "reach (vsys_start (\<lambda>w. fee_free w \<and> 0 \<le> fee_bal w ''WALLET'')) ?step ?\<sigma>"
    by (rule reach_step [OF demo_reach, rotated]) simp
  moreover have "t = vwallet ?\<sigma>" using t(1) by (simp add: demo_sys_def invoke_def run_simps)
  moreover have "paid_in (v_events t) = 500"
    using t(3) by (simp add: demo_wallet_def initialize_done_def empty_wallet_def)
  ultimately show ?thesis
    using wallet_log_accounts [of _ _ _ _ ?\<sigma> t "demo_env 60 []"] t(1,2) by auto
qed

subsection \<open>The entry points that move tokens\<close>

text \<open>
  C21. \<open>release\<close>, every branch. It traps unless the beneficiary signed; with nothing to release it
  returns 0 and makes no token call; when the wallet holds less than is due it fails with
  \<open>InsufficientBalance\<close>; otherwise it counts the release, transfers exactly the vested and unreleased
  amount to the beneficiary, adds it to the released amount and publishes it.
\<close>

theorem release_branches:
  assumes "wallet_ok s" and "vk_Beneficiary s = Some b" and "vk_Token s = Some tok"
    and "r = max (w_vested s (sequence env) - w_released s) 0"
  shows "vesting_release env s =
    (if \<not> authorized env b then Trap
     else if r = 0 then Done 0 (v_bumped env s)
     else case token_balance (host env) (v_world s) tok (current_contract env) of
       None \<Rightarrow> Trap
     | Some (held, w1) \<Rightarrow>
         if held < r then Fail InsufficientBalance ((v_bumped env s)\<lparr>v_world := w1\<rparr>)
         else case u32_checked_add (unwrap_or 0 (vk_ReleaseCount s)) 1 of
           None \<Rightarrow> Trap
         | Some c \<Rightarrow>
             (case token_transfer (host env) w1 tok (current_contract env) b r of
               None \<Rightarrow> Trap
             | Some w2 \<Rightarrow> Done r ((v_bumped env s)\<lparr>vk_ReleaseCount := Some c,
                 vk_ReleasedAmount := Some (w_released s + r), v_world := w2,
                 v_events := v_events s @ [VestReleased b r (w_released s + r)]\<rparr>)))"
  using release_run [OF assms(1-3), of r env] assms(4)
  by (simp only: release_paid_def w_releasable_def)

theorem release_branches_witness:
  "vesting_release (demo_env 20 [''BEN'']) demo_wallet = Done 0 (v_bumped (demo_env 20 [''BEN'']) demo_wallet) \<and>
   vesting_release (demo_env 60 [''ADM'']) demo_wallet = Trap"
  using release_branches [of demo_wallet "''BEN''" "''TOK''" _ "demo_env 20 [''BEN'']", OF _ _ _ refl]
    release_branches [of demo_wallet "''BEN''" "''TOK''" _ "demo_env 60 [''ADM'']", OF _ _ _ refl]
  by (simp add: demo_env_def demo_vested vested_at_def)

text \<open>
  Nothing is paid twice: after a successful \<open>release\<close> another one in the same ledger, under the
  same authorization, returns 0 and changes nothing but the time to live.
\<close>

lemma release_once:
  assumes "wallet_ok s" and "vesting_release env s = Done x t"
  shows "vesting_release env t = Done 0 (v_bumped env t)"
proof -
  obtain b tok where f: "vk_Beneficiary s = Some b" "vk_Token s = Some tok"
    using assms(1) by (rule wallet_okE)
  note run = release_run [OF assms(1) f refl, of env]
  from assms(2) have auth: "authorized env b" by (auto simp: run split: if_splits)
  from assms(2) auth releasable_total(2) [OF assms(1), of "sequence env"]
  have "wallet_ok t \<and> vk_Beneficiary t = Some b \<and> vk_Token t = Some tok \<and> w_releasable t (sequence env) = 0"
    using assms(1) f release_paid_ok [OF assms(1), of env b "sequence env"]
    by (auto simp: run release_paid_def w_releasable_def w_released_def w_vested_def w_revoked_def
        w_total_def split: if_splits option.splits prod.splits)
  then show ?thesis
    using auth by (simp add: release_run [OF _ _ _ refl])
qed

text \<open>
  C20. A successful \<open>revoke\<close> splits the grant: it needs a revocable, unrevoked wallet and the admin's
  signature, the vested and the unvested part add up to the total, the unvested part goes to the
  original funder, whoever the admin is by then, the vested part is what every later ledger sees, and
  what the beneficiary has received is untouched.
\<close>

theorem revoke_splits:
  assumes "wallet_ok s" and "vesting_revoke env s = Done u t"
  shows "\<exists>vested unvested. vested + unvested = w_total s \<and> 0 \<le> unvested \<and>
    vested = w_vested s (sequence env) \<and>
    vk_Revocable s = Some True \<and> \<not> w_revoked s \<and> authorized env (the (vk_Admin s)) \<and>
    (if 0 < unvested
     then token_transfer (host env) (v_world s) (the (vk_Token s)) (current_contract env)
       (the (vk_Funder s)) unvested = Some (v_world t)
     else v_world t = v_world s) \<and>
    w_revoked t \<and> (\<forall>later. w_vested t later = vested) \<and> w_released t = w_released s"
proof -
  obtain b tok adm fdr rv where f: "vk_Beneficiary s = Some b" "vk_Token s = Some tok"
    "vk_Admin s = Some adm" "vk_Funder s = Some fdr" "vk_Revocable s = Some rv"
    using assms(1) by (rule wallet_okE)
  have "w_vested s (sequence env) \<le> w_total s" by (rule w_vested_bounds(2) [OF assms(1)])
  with assms(2) f show ?thesis
    by (intro exI [of _ "w_vested s (sequence env)"] exI [of _ "w_total s - w_vested s (sequence env)"])
      (auto simp: revoke_run [OF assms(1) f refl] revoke_done_def w_revoked_def w_vested_def w_released_def
        split: if_splits option.splits)
qed

theorem revoke_splits_witness:
  "\<exists>t. vesting_revoke (demo_env 60 [''ADM'']) demo_wallet = Done () t \<and> (\<forall>later. w_vested t later = 500)"
proof -
  have v: "w_vested demo_wallet 60 = 500" by (simp add: demo_vested vested_at_def)
  have run: "\<exists>t. vesting_revoke (demo_env 60 [''ADM'']) demo_wallet = Done () t"
    by (simp add: revoke_run [OF _ _ _ _ _ _ refl, where b = "''BEN''" and tok = "''TOK''" and adm = "''ADM''"
        and fdr = "''ADM''" and rv = True] demo_env_def v callee_def fee_transfer_run Let_def fee_bal_def
        fee_of_def in_i128_def i128_saturating_mul_def i128_saturate_def)
  then obtain t where "vesting_revoke (demo_env 60 [''ADM'']) demo_wallet = Done () t" ..
  with revoke_splits [OF demo_wallet_ok this] v show ?thesis
    by (auto simp: demo_env_def)
qed

text \<open>
  C33. \<open>emergency_withdraw\<close> ends the grant: signed by the admin it returns the wallet's whole balance,
  pays it to the admin when it is positive, and from then on, whatever the ledger, nothing is
  due: a \<open>release\<close> signed by the beneficiary pays 0 and the overview reports 0. It needs no revocable
  schedule. \<open>releasable\<close>, the one read without the clamp, returns the negative of the released amount.
\<close>

theorem emergency_withdraw_ends:
  assumes "wallet_ok s" and "vesting_emergency_withdraw env s = Done x t" and "vk_Beneficiary s = Some b"
  shows "authorized env (the (vk_Admin s)) \<and>
    (\<exists>w. token_balance (host env) (v_world s) (the (vk_Token s)) (current_contract env) = Some (x, w) \<and>
      (if 0 < x then token_transfer (host env) w (the (vk_Token s)) (current_contract env) (the (vk_Admin s)) x
         = Some (v_world t) else v_world t = w)) \<and>
    (authorized later b \<longrightarrow> vesting_release later t = Done 0 (v_bumped later t)) \<and>
    (\<exists>ov u. get_vesting_overview later t = Done ov u \<and> vo_releasable_amount ov = 0 \<and>
      releasable_amount later t = Done (- w_released s) u)"
proof -
  obtain tok adm where f: "vk_Token s = Some tok" "vk_Admin s = Some adm"
    using assms(1) by (rule wallet_okE)
  note run = emergency_withdraw_run [OF assms(3) f, of env]
  from assms(2) have t: "\<exists>w. t = emergency_done env s w"
    by (auto simp: run split: if_splits option.splits prod.splits)
  then have ok: "wallet_ok t" and tf: "vk_Beneficiary t = Some b" "vk_Token t = Some tok"
    and v: "w_vested t (sequence later) = 0" "w_released t = w_released s"
    using emergency_done_ok [OF assms(1)] assms(3) f
    by (auto simp: emergency_done_def w_vested_def w_revoked_def w_released_def)
  then have none: "w_releasable t (sequence later) = 0"
    using wallet_ok_released(1) [OF assms(1)] by (simp add: w_releasable_def)
  with release_run [OF ok tf refl, of later]
  have "authorized later b \<longrightarrow> vesting_release later t = Done 0 (v_bumped later t)" by simp
  moreover have "\<exists>ov u. get_vesting_overview later t = Done ov u \<and> vo_releasable_amount ov = 0 \<and>
      releasable_amount later t = Done (- w_released s) u"
    using ok v none by (simp add: releasable_amount_run get_vesting_overview_run)
  ultimately show ?thesis using assms(2) f
    by (auto simp: run emergency_done_def split: if_splits option.splits prod.splits)
qed

lemma demo_emergency:
  "\<exists>t. vesting_emergency_withdraw (demo_env 60 [''ADM'']) demo_wallet = Done 1000 t"
  by (simp add: emergency_withdraw_run [where b = "''BEN''" and tok = "''TOK''" and adm = "''ADM''"]
      demo_env_def callee_def fee_transfer_run Let_def fee_bal_def fee_of_def in_i128_def
      i128_saturating_mul_def i128_saturate_def)

theorem emergency_withdraw_ends_witness:
  "\<exists>t. vesting_emergency_withdraw (demo_env 60 [''ADM'']) demo_wallet = Done 1000 t \<and>
     vesting_release (demo_env 200 [''BEN'']) t = Done 0 (v_bumped (demo_env 200 [''BEN'']) t)"
proof -
  obtain t where run: "vesting_emergency_withdraw (demo_env 60 [''ADM'']) demo_wallet = Done 1000 t"
    using demo_emergency ..
  with emergency_withdraw_ends [OF demo_wallet_ok run, of "''BEN''" "demo_env 200 [''BEN'']"] show ?thesis
    by (auto simp: demo_env_def)
qed

text \<open>
  C13. Authority. A successful call on an initialized wallet changes nothing but the time to live of the
  instance, or is a release signed by the beneficiary, or is a revocation, an emergency withdrawal
  or a change of beneficiary or admin, signed by the admin. No other caller can move a token or
  write a key.
\<close>

theorem vesting_authority:
  assumes "wallet_ok s" and "vesting_call op env s = Done v t"
  shows "t = v_bumped env s \<or>
    (op = OpRelease \<or> op = OpReleaseAll) \<and> authorized env (the (vk_Beneficiary s)) \<or>
    (op = OpRevoke \<or> op = OpEmergencyWithdraw \<or> (\<exists>a. op = OpTransferBeneficiary a \<or> op = OpTransferAdmin a)) \<and>
      authorized env (the (vk_Admin s))"
  using assms by (cases rule: vesting_call_cases) auto

theorem vesting_authority_witness:
  "\<exists>t. vesting_call OpEmergencyWithdraw (demo_env 60 [''ADM'']) demo_wallet = Done (VAmount 1000) t \<and>
     (t = v_bumped (demo_env 60 [''ADM'']) demo_wallet \<or> authorized (demo_env 60 [''ADM'']) ''ADM'')"
proof -
  obtain t where "vesting_emergency_withdraw (demo_env 60 [''ADM'']) demo_wallet = Done 1000 t"
    using demo_emergency ..
  then have run: "vesting_call OpEmergencyWithdraw (demo_env 60 [''ADM'']) demo_wallet = Done (VAmount 1000) t"
    by (simp add: run_simps)
  with vesting_authority [OF demo_wallet_ok run] show ?thesis by auto
qed

subsection \<open>Initialization\<close>

text \<open>
  C34. \<open>initialize\<close> succeeds exactly on an uninitialized wallet, with a beneficiary that can sign, a
  positive amount within the ceiling, \<open>now \<le> start \<le> cliff < end\<close>, the admin's signature and a token
  that accepts the transfer of the total from the admin to the wallet; the state it leaves is the
  schedule asked for with nothing released. In particular the \<open>checked_mul\<close> guard never refuses
  anything that the ceiling let through.
\<close>

theorem initialize_accepts:
  "vesting_initialize env b tok tot st cl en rv adm s = Done u t \<longleftrightarrow>
     vk_Beneficiary s = None \<and> b \<noteq> zero_address \<and> 0 < tot \<and> tot \<le> MAX_TOTAL_AMOUNT \<and>
     sequence env \<le> st \<and> st \<le> cl \<and> cl < en \<and> authorized env adm \<and>
     (\<exists>w. token_transfer (host env) (v_world s) tok adm (current_contract env) tot = Some w \<and>
       t = initialize_done env s b tok tot st cl en rv adm w)"
  using initialize_Done [of env b tok tot st cl en rv adm s u t] initialize_run [of s b tot st cl en env tok rv adm]
  by (auto simp: schedule_wf_def)

text \<open>
  Before initialization every other entry point fails with \<open>NotInitialized\<close>, after it another
  \<open>initialize\<close> fails with \<open>AlreadyInitialized\<close>, and either way the invocation leaves no trace.
\<close>

lemma initialize_first_and_once:
  "(vk_Beneficiary s = None \<longrightarrow> \<not> is_initialize op \<longrightarrow>
      invoke (vesting_call op env) s = (Failed VNotInitialized, s)) \<and>
   (vk_Beneficiary s \<noteq> None \<longrightarrow> is_initialize op \<longrightarrow>
      invoke (vesting_call op env) s = (Failed VAlreadyInitialized, s))"
proof (intro conjI impI)
  assume "vk_Beneficiary s = None" and "\<not> is_initialize op"
  then show "invoke (vesting_call op env) s = (Failed VNotInitialized, s)"
    by (simp add: invoke_def vesting_uninit_fails)
next
  assume "vk_Beneficiary s \<noteq> None" and "is_initialize op"
  then show "invoke (vesting_call op env) s = (Failed VAlreadyInitialized, s)"
    by (cases op) (auto simp: invoke_def vesting_initialize_def run_simps)
qed

subsection \<open>Reads\<close>

text \<open>
  C38. The overview never disagrees with the single reads or with a release: it reports the vested and
  the released amount those entry points return, and its releasable amount is what a \<open>release\<close> at
  the same ledger pays when it succeeds; the schedule, the dates, the parties and the two flags are the ones
  the single reads return, and none of these reads changes anything but the time to live. \<open>releasable\<close>
  alone returns the plain difference, which is the overview's amount exactly when it is not negative.
\<close>

theorem overview_consistent:
  assumes "wallet_ok s"
  shows "\<exists>ov t. get_vesting_overview env s = Done ov t \<and> t = v_bumped env s \<and>
    vested_amount env s = Done (vo_vested_amount ov) t \<and>
    released_amount env s = Done (vo_released_amount ov) t \<and>
    is_fully_released env s = Done (vo_released_amount ov = vo_total_amount ov) t \<and>
    releasable_amount env s = Done (vo_vested_amount ov - vo_released_amount ov) t \<and>
    vo_releasable_amount ov = max (vo_vested_amount ov - vo_released_amount ov) 0 \<and>
    get_vesting_schedule env s = Done \<lparr>vs_beneficiary = vo_beneficiary ov, vs_token = vo_token ov,
      vs_total_amount = vo_total_amount ov, vs_start_ledger = vo_start_ledger ov, vs_cliff_ledger = vo_cliff_ledger ov,
      vs_end_ledger = vo_end_ledger ov, vs_revocable = vo_revocable ov\<rparr> t \<and>
    vesting_dates env s = Done (vo_start_ledger ov, vo_cliff_ledger ov, vo_end_ledger ov) t \<and>
    vesting_beneficiary env s = Done (vo_beneficiary ov) t \<and> vesting_token env s = Done (vo_token ov) t \<and>
    vesting_revocable env s = Done (vo_revocable ov) t \<and> vesting_revoked env s = Done (vo_revoked ov) t \<and>
    (\<forall>x t'. vesting_release env s = Done x t' \<longrightarrow> x = vo_releasable_amount ov)"
proof -
  obtain b tok where f: "vk_Beneficiary s = Some b" "vk_Token s = Some tok"
    using assms by (rule wallet_okE)
  have "vesting_release env s = Done x t' \<Longrightarrow> x = w_releasable s (sequence env)" for x t'
    by (auto simp: release_run [OF assms f refl] split: if_splits option.splits prod.splits)
  moreover have "get_vesting_schedule env s = Done \<lparr>vs_beneficiary = b, vs_token = tok, vs_total_amount = w_total s,
      vs_start_ledger = the (vk_StartLedger s), vs_cliff_ledger = the (vk_CliffLedger s),
      vs_end_ledger = the (vk_EndLedger s), vs_revocable = the (vk_Revocable s)\<rparr> (v_bumped env s)"
    "vesting_dates env s = Done (the (vk_StartLedger s), the (vk_CliffLedger s), the (vk_EndLedger s)) (v_bumped env s)"
    "vesting_beneficiary env s = Done b (v_bumped env s)" "vesting_token env s = Done tok (v_bumped env s)"
    "vesting_revocable env s = Done (the (vk_Revocable s)) (v_bumped env s)"
    "vesting_revoked env s = Done (w_revoked s) (v_bumped env s)"
    using assms f by (elim wallet_okE, simp add: vesting_reader_defs run_simps w_total_def)+
  ultimately show ?thesis
    by (auto simp: get_vesting_overview_run assms vested_amount_run released_amount_run is_fully_released_run
        releasable_amount_run w_releasable_def f)
qed

theorem overview_consistent_witness:
  "\<exists>ov t. get_vesting_overview (demo_env 60 []) demo_wallet = Done ov t \<and>
     vested_amount (demo_env 60 []) demo_wallet = Done (vo_vested_amount ov) t"
  using overview_consistent [OF demo_wallet_ok, of "demo_env 60 []"] by blast

subsection \<open>Panics\<close>

text \<open>The token answers the balance query of a payment and then honours the transfer.\<close>

definition pays_out :: "'w env \<Rightarrow> 'w wallet \<Rightarrow> address \<Rightarrow> i128 \<Rightarrow> bool" where
  "pays_out env s to x \<longleftrightarrow> (case token_balance (host env) (v_world s) (the (vk_Token s)) (current_contract env) of
      None \<Rightarrow> False
    | Some (held, w) \<Rightarrow> token_transfer (host env) w (the (vk_Token s)) (current_contract env) to x \<noteq> None)"

lemma u32_checked_add_max: "u32_checked_add (unwrap_or 0 c) 1 = None \<longleftrightarrow> c = Some u32_max"
  by (cases c) (simp_all add: u32_checked_add_1_None)

lemma writes_Trap:
  assumes "wallet_ok s" and "vk_Beneficiary s = Some b" and "vk_Admin s = Some adm"
  shows "vesting_release env s = Trap \<Longrightarrow> \<not> authorized env b \<or> vk_ReleaseCount s = Some u32_max \<or>
      \<not> pays_out env s b (w_releasable s (sequence env))"
    and "vesting_revoke env s = Trap \<Longrightarrow> \<not> authorized env adm \<or>
      token_transfer (host env) (v_world s) (the (vk_Token s)) (current_contract env) (the (vk_Funder s))
        (w_total s - w_vested s (sequence env)) = None"
    and "vesting_emergency_withdraw env s = Trap \<Longrightarrow> \<not> authorized env adm \<or>
      (case token_balance (host env) (v_world s) (the (vk_Token s)) (current_contract env) of
        None \<Rightarrow> True | Some (held, w) \<Rightarrow> \<not> pays_out env s adm held)"
    and "transfer_beneficiary env a s = Trap \<Longrightarrow> \<not> authorized env adm"
    and "vesting_transfer_admin env a s = Trap \<Longrightarrow> \<not> authorized env adm"
proof -
  obtain tok fdr rv where f: "vk_Token s = Some tok" "vk_Funder s = Some fdr" "vk_Revocable s = Some rv"
    using assms(1) by (rule wallet_okE)
  show "vesting_release env s = Trap \<Longrightarrow> \<not> authorized env b \<or> vk_ReleaseCount s = Some u32_max \<or>
      \<not> pays_out env s b (w_releasable s (sequence env))"
    by (auto simp: release_run [OF assms(1,2) f(1) refl] pays_out_def f(1) u32_checked_add_max
        split: if_splits option.splits prod.splits)
  show "vesting_revoke env s = Trap \<Longrightarrow> \<not> authorized env adm \<or>
      token_transfer (host env) (v_world s) (the (vk_Token s)) (current_contract env) (the (vk_Funder s))
        (w_total s - w_vested s (sequence env)) = None"
    by (auto simp: revoke_run [OF assms(1,2) f(1) assms(3) f(2,3) refl] f split: if_splits option.splits)
  show "vesting_emergency_withdraw env s = Trap \<Longrightarrow> \<not> authorized env adm \<or>
      (case token_balance (host env) (v_world s) (the (vk_Token s)) (current_contract env) of
        None \<Rightarrow> True | Some (held, w) \<Rightarrow> \<not> pays_out env s adm held)"
    by (auto simp: emergency_withdraw_run [OF assms(2) f(1) assms(3)] pays_out_def f(1) split: if_splits option.splits prod.splits)
  show "transfer_beneficiary env a s = Trap \<Longrightarrow> \<not> authorized env adm"
    "vesting_transfer_admin env a s = Trap \<Longrightarrow> \<not> authorized env adm"
    using assms(2,3) by (auto simp: transfer_beneficiary_def vesting_transfer_admin_def run_simps split: if_splits)
qed

text \<open>
  C31. When the wallet panics. A call of an initialized wallet traps only if it is a release without the
  beneficiary's authorization or a revocation, withdrawal or reassignment without the admin's, if the
  token refuses the payment the call makes, or if the release counter is at its maximum. No read
  traps, and no arithmetic of the schedule overflows: every other call returns a value or a typed error.
\<close>

theorem wallet_panics_only:
  assumes "wallet_ok s" and "vk_Beneficiary s = Some b" and "vk_Admin s = Some adm"
    and "vesting_call op env s = Trap"
  shows "(op = OpRelease \<or> op = OpReleaseAll) \<and> (\<not> authorized env b \<or> vk_ReleaseCount s = Some u32_max \<or>
      \<not> pays_out env s b (w_releasable s (sequence env))) \<or>
    op = OpRevoke \<and> (\<not> authorized env adm \<or>
      token_transfer (host env) (v_world s) (the (vk_Token s)) (current_contract env) (the (vk_Funder s))
        (w_total s - w_vested s (sequence env)) = None) \<or>
    op = OpEmergencyWithdraw \<and> (\<not> authorized env adm \<or>
      (case token_balance (host env) (v_world s) (the (vk_Token s)) (current_contract env) of
        None \<Rightarrow> True | Some (held, w) \<Rightarrow> \<not> pays_out env s adm held)) \<or>
    (\<exists>a. op = OpTransferBeneficiary a \<or> op = OpTransferAdmin a) \<and> \<not> authorized env adm"
proof (cases "vesting_reads op")
  case True
  from vesting_reads_run [OF assms(1) True, of env] assms(4) show ?thesis by auto
next
  case False
  moreover have "vesting_initialize env b' tok tot st cl en rv a s \<noteq> Trap" for b' tok tot st cl en rv a
    using assms(2) by (simp add: vesting_initialize_def run_simps)
  ultimately show ?thesis
    using assms(4) writes_Trap [OF assms(1-3), of env]
    by (cases op) (auto simp: returns_Trap vesting_reads_def vesting_release_all_def)
qed

theorem wallet_panics_only_witness:
  "vesting_call OpRelease (demo_env 60 []) demo_wallet = Trap \<and> \<not> authorized (demo_env 60 []) ''BEN''"
proof -
  have "vesting_call OpRelease (demo_env 60 []) demo_wallet = Trap" 
    using release_run [OF demo_wallet_ok, of "''BEN''" "''TOK''" _ "demo_env 60 []"] by (simp add: run_simps demo_env_def)
  with wallet_panics_only [OF demo_wallet_ok _ _ this, of "''BEN''" "''ADM''"] show ?thesis
    by (simp add: demo_env_def)
qed

subsection \<open>The mock tokens\<close>

text \<open>A transfer takes exactly the fee out of circulation.\<close>

lemma fee_transfer_sum:
  assumes "fee_transfer from to amount s = Done u t" and "finite A" and "from \<in> A" and "to \<in> A"
  shows "(\<Sum>a\<in>A. fee_bal t a) = (\<Sum>a\<in>A. fee_bal s a) - fee_of s amount"
proof -
  let ?mid = "(fee_bal s)(from := fee_bal s from - amount)"
  have upd: "(\<Sum>a\<in>A. (f(c := f c + d)) a) = (\<Sum>a\<in>A. f a) + d" if "c \<in> A" for f :: "address \<Rightarrow> i128" and c d
    using assms(2) that by (simp add: sum.remove [of A c] fun_upd_def)
  have "fee_bal t = ?mid(to := ?mid to + (amount - fee_of s amount))"
    using assms(1) by (auto simp: fee_transfer_run Let_def fee_bal_def fun_eq_iff split: if_splits)
  then have "(\<Sum>a\<in>A. fee_bal t a) = (\<Sum>a\<in>A. ?mid a) + (amount - fee_of s amount)"
    using upd [OF assms(4), of ?mid] by simp
  also have "(\<Sum>a\<in>A. ?mid a) = (\<Sum>a\<in>A. fee_bal s a) - amount"
    using upd [OF assms(3), of "fee_bal s" "- amount"] by simp
  finally show ?thesis by simp
qed

text \<open>
  C39. \<open>initialize\<close> books the whole amount without looking at what arrived: with a \<open>MockFeeToken\<close> that
  takes a fee, a fresh wallet that is initialized successfully owes more than it holds, by exactly
  the fee, and the fee is gone: the balances of everybody together are lower by it.
\<close>

theorem fee_token_underfunds:
  assumes "wallet_fresh s" and "fee_bal (v_world s) (current_contract env) = 0" and "adm \<noteq> current_contract env"
    and "host env = fee_host tok" and "0 < fee_of (v_world s) tot"
    and "vesting_initialize env b tok tot st cl en rv adm s = Done u t"
  shows "fee_bal (v_world t) (current_contract env) = w_owed t - fee_of (v_world s) tot \<and>
    fee_bal (v_world t) (current_contract env) < w_owed t \<and>
    (\<forall>A. finite A \<and> adm \<in> A \<and> current_contract env \<in> A \<longrightarrow>
      (\<Sum>a\<in>A. fee_bal (v_world t) a) = (\<Sum>a\<in>A. fee_bal (v_world s) a) - fee_of (v_world s) tot)"
proof -
  from initialize_Done [OF assms(6)] obtain w where
    w: "token_transfer (fee_host tok) (v_world s) tok adm (current_contract env) tot = Some w"
      "t = initialize_done env s b tok tot st cl en rv adm w"
    unfolding assms(4) by blast
  have "w_owed t = tot"
    using wallet_fresh_fields [OF assms(1)] w(2)
    by (simp add: initialize_done_def w_owed_def w_revoked_def w_total_def w_released_def)
  moreover from fee_transfer_Done(2) [OF w(1) [unfolded fee_host_transfer] assms(3)] assms(2) w(2)
  have "fee_bal (v_world t) (current_contract env) = tot - fee_of (v_world s) tot"
    by (simp add: initialize_done_def)
  moreover have "v_world t = w" using w(2) by (simp add: initialize_done_def)
  ultimately show ?thesis
    using assms(5) fee_transfer_sum [OF w(1) [unfolded fee_host_transfer]] by simp
qed

theorem fee_token_underfunds_witness:
  "\<exists>t. vesting_initialize (demo_env 5 [''ADM'']) ''BEN'' ''TOK'' 1000 10 30 110 True ''ADM''
       (empty_wallet 0 \<lparr>ft_Balance = [''ADM'' \<mapsto> 5000], ft_FeeBps = Some 100\<rparr>) = Done () t \<and>
     fee_bal (v_world t) ''WALLET'' = 990 \<and> fee_bal (v_world t) ''WALLET'' < w_owed t"
proof -
  let ?s = "empty_wallet 0 \<lparr>ft_Balance = [''ADM'' \<mapsto> 5000], ft_FeeBps = Some 100\<rparr>"
  let ?env = "demo_env 5 [''ADM'']"
  have fresh: "wallet_fresh ?s" "vk_Beneficiary ?s = None" and fee: "fee_of (v_world ?s) 1000 = 10"
    by (simp_all add: wallet_fresh_def empty_wallet_def fee_of_def i128_saturating_mul_def
        i128_saturate_def FEE_DENOMINATOR_def sdiv_nonneg)
  have bal: "fee_bal (v_world ?s) ''ADM'' = 5000" "fee_bal (v_world ?s) ''WALLET'' = 0"
    by (simp_all add: empty_wallet_def fee_bal_def)
  obtain t where t: "vesting_initialize ?env ''BEN'' ''TOK'' 1000 10 30 110 True ''ADM'' ?s = Done () t"
    using fresh fee bal by (simp add: initialize_run zero_address_def demo_env_def callee_def fee_transfer_run
        Let_def fee_bal_upd fee_bal_get in_i128_def)
  have "fee_bal (v_world t) ''WALLET'' = w_owed t - 10 \<and> fee_bal (v_world t) ''WALLET'' < w_owed t"
    using conjunct1 [OF fee_token_underfunds [OF fresh(1) _ _ _ _ t]] bal fee by (simp add: demo_env_def)
  moreover have "w_owed t = 1000"
    using initialize_Done [OF t] wallet_fresh_fields(2) [OF fresh(1)]
    by (auto simp: initialize_done_def w_owed_def w_revoked_def w_total_def w_released_def)
  ultimately show ?thesis using t by simp
qed

text \<open>
  C40. The re-entrant tokens report what happened to their call back. Configured with a target and a
  user, \<open>MockReentrantToken\<close> completes a transfer whatever the host does with the re-entry: the target
  then reads the whole deposit as its balance, everybody else reads \<open>i128::MAX\<close>, each query is counted,
  and \<open>reentry_was_rejected\<close> is true exactly when the call was refused. \<open>MockNaiveReentrantToken\<close> traps
  when the call is refused, so that the invocation leaves no trace of the deposit.
\<close>

theorem reentry_reported:
  assumes "in_i128 (unwrap_or 0 (rt_PoolBalance s) + amount)" and "rt_ReentrantCall s = None"
    and "unwrap_or 0 (rt_BalanceCallCount s) = c" and "unat c < 2 ^ 32 - 2" and "other \<noteq> target"
    and "rh_try_invoke h (rt_world s) target ''get_user_position'' [rh_into_val h user] = (result, w)"
  shows "\<exists>t. and_then (reentrant_configure target user) (\<lambda>_.
      and_then (reentrant_transfer h payer payee amount) (\<lambda>_.
      and_then (reentrant_balance target) (\<lambda>b.
      and_then (reentrant_balance other) (\<lambda>b'.
      and_then reentry_was_rejected (\<lambda>rejected.
      and_then balance_call_count (\<lambda>n. ok (b, b', rejected, n))))))) s =
        (Done (unwrap_or 0 (rt_PoolBalance s) + amount, i128_max, result = None, c + 2) t :: (unit, _, _) outcome) \<and>
    (rh_invoke h (rt_world s) target ''get_user_position'' [rh_into_val h user] = None \<longrightarrow>
      invoke (and_then (naive_configure target user) (\<lambda>_. naive_transfer h payer payee amount)) s =
        (Trapped :: (unit, unit) reply, s))"
proof -
  have "unat (c + 1) = Suc (unat c)"
    using assms(4) by (intro unat_u32_Suc [of c u32_max]) (simp add: word_less_nat_alt)
  moreover from this have "u32_checked_add c 1 = Some (c + 1)" "u32_checked_add (c + 1) 1 = Some (c + 2)"
    using assms(4) by (auto simp: u32_checked_add_def)
  ultimately show ?thesis
    using assms by (simp add: reentrant_configure_def reentrant_transfer_def reentrant_balance_def record_balance_call_def
        reentry_was_rejected_def balance_call_count_def naive_configure_def naive_transfer_def run_simps invoke_def)
qed

theorem reentry_reported_witness:
  "let h = \<lparr>rh_into_val = (\<lambda>a. a), rh_try_invoke = (\<lambda>w t f args. (None, w)), rh_invoke = (\<lambda>w t f args. None)\<rparr>;
       s = \<lparr>rt_Target = None, rt_ReentrantUser = None, rt_ReentryWasRejected = None,
            rt_ReentrantCall = None, rt_BalanceCallCount = None, rt_PoolBalance = Some 7, rt_world = ()\<rparr>
   in invoke (and_then (naive_configure ''POOL'' ''USR'') (\<lambda>_. naive_transfer h ''USR'' ''POOL'' 5)) s =
     (Trapped :: (unit, unit) reply, s)"
proof -
  let ?h = "\<lparr>rh_into_val = (\<lambda>a. a), rh_try_invoke = (\<lambda>w t f args. (None, w)), rh_invoke = (\<lambda>w t f args. None)\<rparr>"
  let ?s = "\<lparr>rt_Target = None, rt_ReentrantUser = None, rt_ReentryWasRejected = None,
    rt_ReentrantCall = None, rt_BalanceCallCount = None, rt_PoolBalance = Some 7, rt_world = ()\<rparr>"
  show ?thesis
    using reentry_reported [where s = ?s and target = "''POOL''" and user = "''USR''" and amount = 5 and h = ?h
      and payer = "''USR''" and payee = "''POOL''" and other = "''USR''" and c = 0 and result = None and w = "()"]
    by (simp add: in_i128_def Let_def)
qed

end
