(* ===== verification/Vesting_Estate.thy ===== *)
theory Vesting_Estate
  imports Vesting_Properties
begin

text \<open>
  Any number of vesting wallets that share the outside world, and with it their token. A call of one
  wallet is an outside event for the others; the theory shows that it is one they allow, so that
  what holds of a wallet alone holds of each of them.
\<close>

subsection \<open>What a call does to the outside world\<close>

text \<open>
  At most one balance query and one transfer of a positive amount, from the wallet's own account or from
  one whose owner signed.
\<close>

definition moves_token :: "'w env \<Rightarrow> 'w \<Rightarrow> 'w \<Rightarrow> bool" where
  "moves_token env w w' \<longleftrightarrow> w' = w \<or>
     (\<exists>tk payer payee x w1. 0 < x \<and> (payer = current_contract env \<or> authorized env payer) \<and>
       (w1 = w \<or> (\<exists>y. token_balance (host env) w tk (current_contract env) = Some (y, w1))) \<and>
       (w' = w1 \<or> token_transfer (host env) w1 tk payer payee x = Some w'))"

lemma moves_refl [simp]: "moves_token env w w"
  by (simp add: moves_token_def)

lemma moves_transfer:
  "token_transfer (host env) w tk payer payee x = Some w' \<Longrightarrow> 0 < x \<Longrightarrow>
     payer = current_contract env \<or> authorized env payer \<Longrightarrow> moves_token env w w'"
  unfolding moves_token_def by blast

lemma moves_query_transfer:
  "token_balance (host env) w tk (current_contract env) = Some (y, w1) \<Longrightarrow>
     token_transfer (host env) w1 tk (current_contract env) payee x = Some w' \<Longrightarrow> 0 < x \<Longrightarrow> moves_token env w w'"
  unfolding moves_token_def by blast

lemma moves_query:
  "token_balance (host env) w tk (current_contract env) = Some (y, w') \<Longrightarrow> moves_token env w w'"
  unfolding moves_token_def by (metis zero_less_one)

lemma call_moves:
  assumes "wallet_inv s" and "vesting_call op env s = Done v t"
  shows "moves_token env (v_world s) (v_world t)"
proof (cases "vk_Beneficiary s = None")
  case True
  from vesting_call_fresh_cases [OF True assms(2)] obtain b tok tot st cl en rv adm w where
    "schedule_wf tot st cl en" "authorized env adm"
    "token_transfer (host env) (v_world s) tok adm (current_contract env) tot = Some w"
    "t = initialize_done env s b tok tot st cl en rv adm w" by metis
  then show ?thesis
    using moves_transfer [of env "v_world s" tok adm "current_contract env" tot w] by (simp add: initialize_done_def schedule_wf_def)
next
  case False
  with assms(1) have "wallet_ok s" by (blast intro: wallet_inv_ok)
  from this assms(2) show ?thesis
  proof (cases rule: vesting_call_cases)
    case (paid b tok r held w1 w2 c)
    then show ?thesis by (auto simp: release_paid_def intro: moves_query_transfer)
  next
    case (revoked b tok adm fdr u w)
    then show ?thesis by (auto simp: revoke_done_def intro: moves_transfer split: if_splits)
  next
    case (drained tok adm x w1 w2)
    then show ?thesis by (auto simp: emergency_done_def intro: moves_query moves_query_transfer split: if_splits)
  qed simp_all
qed

subsection \<open>Many wallets\<close>

text \<open>
  The wallets at the addresses \<open>D\<close>, one clock and one world. A step is an invocation of any wallet with any
  authorizations but the wallets' own, a later ledger or an outside event.
\<close>

record 'w estate =
  es_clock :: u32
  es_world :: 'w
  es_wallets :: "address \<Rightarrow> 'w wallet"

definition wallet_at :: "'w estate \<Rightarrow> address \<Rightarrow> 'w wallet" where
  "wallet_at e a = (es_wallets e a)\<lparr>v_world := es_world e\<rparr>"

inductive estate_step :: "'w host \<Rightarrow> address set \<Rightarrow> ('w \<Rightarrow> 'w \<Rightarrow> bool) \<Rightarrow> 'w estate \<Rightarrow> 'w estate \<Rightarrow> bool"
  for h D outside where
  ecall: "a \<in> D \<Longrightarrow> host env = h \<Longrightarrow> current_contract env = a \<Longrightarrow> sequence env = es_clock e \<Longrightarrow>
    (\<forall>d \<in> D. \<not> authorized env d) \<Longrightarrow> t = snd (invoke (vesting_call op env) (wallet_at e a)) \<Longrightarrow>
    estate_step h D outside e (e\<lparr>es_world := v_world t, es_wallets := (es_wallets e)(a := t)\<rparr>)"
| eledger: "es_clock e \<le> later \<Longrightarrow> estate_step h D outside e (e\<lparr>es_clock := later\<rparr>)"
| eoutside: "outside (es_world e) w \<Longrightarrow> estate_step h D outside e (e\<lparr>es_world := w\<rparr>)"

definition estate_start :: "('w \<Rightarrow> bool) \<Rightarrow> address set \<Rightarrow> 'w estate \<Rightarrow> bool" where
  "estate_start ok_world D e \<longleftrightarrow> ok_world (es_world e) \<and> (\<forall>a \<in> D. wallet_fresh (wallet_at e a))"

text \<open>One wallet of the estate, as the machine of a wallet alone.\<close>

definition wallet_view :: "address \<Rightarrow> 'w estate \<Rightarrow> 'w vsys" where
  "wallet_view a e = \<lparr>vclock = es_clock e, vwallet = wallet_at e a\<rparr>"

text \<open>
  One lawful token \<open>tok\<close> under all of them: calls to other tokens leave its balances, and outside events
  take nothing from the wallets.
\<close>

locale wallet_estate =
  sep41_token invar bal "\<lambda>w. token_balance h w tok" "\<lambda>w. token_transfer h w tok"
  for invar :: "'w \<Rightarrow> bool" and bal :: "'w \<Rightarrow> address \<Rightarrow> i128" and h :: "'w host" and tok :: address +
  fixes D :: "address set" and outside :: "'w \<Rightarrow> 'w \<Rightarrow> bool"
  assumes other_balance: "tk \<noteq> tok \<Longrightarrow> invar w \<Longrightarrow> token_balance h w tk a = Some (x, w') \<Longrightarrow> invar w' \<and> bal w' = bal w"
    and other_transfer: "tk \<noteq> tok \<Longrightarrow> invar w \<Longrightarrow> token_transfer h w tk a b x = Some w' \<Longrightarrow> invar w' \<and> bal w' = bal w"
    and outside_estate: "a \<in> D \<Longrightarrow> outside w w' \<Longrightarrow> invar w \<Longrightarrow> invar w' \<and> bal w a \<le> bal w' a"
begin

text \<open>What a wallet relies on of everybody else.\<close>

definition rely :: "address \<Rightarrow> 'w \<Rightarrow> 'w \<Rightarrow> bool" where
  "rely a w w' \<longleftrightarrow> (invar w \<longrightarrow> invar w' \<and> bal w a \<le> bal w' a)"

lemma rely_trans: "rely a w w' \<Longrightarrow> rely a w' w'' \<Longrightarrow> rely a w w''"
  by (auto simp: rely_def)

lemma rely_query: "token_balance h w tk c = Some (y, w') \<Longrightarrow> rely a w w'"
  using other_balance [of tk w c y w'] balance_Some [of w c y w'] by (cases "tk = tok") (auto simp: rely_def)

lemma rely_transfer:
  assumes "token_transfer h w tk payer payee x = Some w'" and "0 < x" and "payer \<noteq> a"
  shows "rely a w w'"
proof (cases "tk = tok")
  case True
  with assms have "invar w \<Longrightarrow> bal w a \<le> bal w' a"
    using transfer_in [of w payer a x w'] transfer_others [of w payer payee x w' a] by (cases "payee = a") auto
  with True assms(1) transfer_invar [of w payer payee x w'] show ?thesis by (auto simp: rely_def)
next
  case False
  with assms(1) other_transfer [of tk w payer payee x w'] show ?thesis by (auto simp: rely_def)
qed

lemma rely_moves:
  assumes "moves_token env w w'" and "host env = h" and "current_contract env \<noteq> a" and "\<not> authorized env a"
  shows "rely a w w'"
proof (cases "w' = w")
  case True
  then show ?thesis by (simp add: rely_def)
next
  case False
  with assms(1) obtain tk payer payee x w1 where m: "0 < x" "payer = current_contract env \<or> authorized env payer"
    "w1 = w \<or> (\<exists>y. token_balance h w tk (current_contract env) = Some (y, w1))"
    "w' = w1 \<or> token_transfer h w1 tk payer payee x = Some w'" unfolding moves_token_def assms(2) by blast
  from m(2) assms(3,4) have "payer \<noteq> a" by auto
  with m(1,4) have "rely a w1 w'" by (auto simp: rely_def [of a w1 w1] intro: rely_transfer)
  moreover from m(3) have "rely a w w1" by (auto simp: rely_def [of a w w] intro: rely_query)
  ultimately show ?thesis using rely_trans by blast
qed

sublocale custody: wallet_custody invar bal h tok a "rely a" for a
  by unfold_locales (auto simp: rely_def)

definition funded :: "'w \<Rightarrow> bool" where
  "funded w \<longleftrightarrow> invar w \<and> (\<forall>a \<in> D. 0 \<le> bal w a)"

lemma rely_custody: "wallet_custody invar bal h tok a (rely a)"
  by (rule custody.wallet_custody_axioms)

lemma call_rely:
  assumes "wallet_inv (wallet_at e b)" and "host env = h" and "current_contract env = b"
    and "a \<noteq> b" and "\<not> authorized env a"
  shows "rely a (es_world e) (v_world (snd (invoke (vesting_call op env) (wallet_at e b))))"
proof (rule invoke_preserves [where P = "\<lambda>u. rely a (es_world e) (v_world u)"])
  show "rely a (es_world e) (v_world (wallet_at e b))" by (simp add: rely_def wallet_at_def)
  fix v t
  assume "vesting_call op env (wallet_at e b) = Done v t"
  from call_moves [OF assms(1) this] assms(2-5) show "rely a (es_world e) (v_world t)"
    by (intro rely_moves) (simp_all add: wallet_at_def)
qed

lemma view_step:
  assumes "estate_step h D outside e e'" and "a \<in> D" and "\<forall>b \<in> D. wallet_inv (wallet_at e b)"
  shows "vsys_step h a (rely a) (wallet_view a e) (wallet_view a e')"
  using assms(1)
proof cases
  case (ecall b env t op)
  show ?thesis
  proof (cases "a = b")
    case True
    with ecall assms(2) have "vsys_step h a (rely a) (wallet_view a e) ((wallet_view a e)\<lparr>vwallet := t\<rparr>)"
      using vcall [of env h a "wallet_view a e" "rely a" op] by (simp add: wallet_view_def)
    moreover have "(wallet_view a e)\<lparr>vwallet := t\<rparr> = wallet_view a e'"
      using ecall(1) True by (simp add: wallet_view_def wallet_at_def)
    ultimately show ?thesis by simp
  next
    case False
    have "rely a (es_world e) (v_world t)"
      unfolding ecall(7) using assms(2,3) ecall False by (intro call_rely) auto
    then have "vsys_step h a (rely a) (wallet_view a e) ((wallet_view a e)\<lparr>vwallet := (wallet_at e a)\<lparr>v_world := v_world t\<rparr>\<rparr>)"
      using voutside [of "rely a" "wallet_view a e" "v_world t" h a] by (simp add: wallet_view_def wallet_at_def)
    moreover have "(wallet_view a e)\<lparr>vwallet := (wallet_at e a)\<lparr>v_world := v_world t\<rparr>\<rparr> = wallet_view a e'"
      using ecall(1) False by (simp add: wallet_view_def wallet_at_def)
    ultimately show ?thesis by simp
  qed
next
  case (eledger later)
  then show ?thesis
    using vledger [of "wallet_view a e" later h a "rely a"] by (simp add: wallet_view_def wallet_at_def)
next
  case (eoutside w)
  then have "rely a (es_world e) w" using outside_estate [OF assms(2)] by (simp add: rely_def)
  then show ?thesis
    using eoutside(1) voutside [of "rely a" "wallet_view a e" w h a] by (simp add: wallet_view_def wallet_at_def)
qed

lemma reach_view:
  assumes "reach (estate_start funded D) (estate_step h D outside) e" and "a \<in> D"
  shows "reach (vsys_start (custody.holds a)) (vsys_step h a (rely a)) (wallet_view a e)"
proof -
  have "\<forall>a \<in> D. reach (vsys_start (custody.holds a)) (vsys_step h a (rely a)) (wallet_view a e)"
    using assms(1)
  proof (induction rule: reach.induct)
    case (reach_start e)
    then show ?case
      by (auto simp: estate_start_def vsys_start_def wallet_view_def wallet_at_def funded_def custody.holds_def intro!: reach.reach_start)
  next
    case (reach_step e e')
    have inv: "\<forall>b \<in> D. wallet_inv (wallet_at e b)"
    proof
      fix b assume "b \<in> D"
      with reach_step.IH vesting_wf.reach_invariant [of "custody.holds b" h b "rely b" "wallet_view b e"]
      show "wallet_inv (wallet_at e b)" by (simp add: wallet_view_def)
    qed
    show ?case
      using reach_step.IH view_step [OF reach_step.hyps(2) _ inv] by (blast intro: reach.reach_step)
  qed
  with assms(2) show ?thesis by blast
qed

lemma estate_solvent:
  assumes "reach (estate_start funded D) (estate_step h D outside) e" and "a \<in> D"
    and "vk_Beneficiary (wallet_at e a) \<noteq> None" and "vk_Token (wallet_at e a) = Some tok"
  shows "w_owed (wallet_at e a) \<le> bal (es_world e) a"
  using custody.reach_solvent(2) [OF reach_view [OF assms(1,2)]] assms(3,4)
  by (simp add: wallet_view_def custody.covers_def wallet_at_def)

end

text \<open>\<open>MockFeeToken\<close> without a fee: anybody may mint, and everybody but the wallets may transfer.\<close>

definition fee_outside_of :: "address set \<Rightarrow> fee_token \<Rightarrow> fee_token \<Rightarrow> bool" where
  "fee_outside_of D w w' \<longleftrightarrow>
     (\<exists>to amount. 0 \<le> amount \<and> callee (fee_mint to amount) w = Some ((), w')) \<or>
     (\<exists>from to amount. from \<notin> D \<and> 0 \<le> amount \<and> callee (fee_transfer from to amount) w = Some ((), w'))"

lemma fee_outside_of_wallet:
  assumes "fee_outside_of D w w'" and "a \<in> D"
  shows "fee_outside a w w'"
  using assms(1) unfolding fee_outside_of_def
proof (elim disjE exE conjE)
  fix "from" to amount
  assume "from \<notin> D" and pay: "0 \<le> amount" "callee (fee_transfer from to amount) w = Some ((), w')"
  with assms(2) have "from \<noteq> a" by auto
  with pay show ?thesis unfolding fee_outside_def by (intro disjI2 exI conjI)
qed (unfold fee_outside_def, intro disjI1 exI conjI)

interpretation fee_estate: wallet_estate fee_free fee_bal "fee_host addr" addr D "fee_outside_of D" for addr D
proof (unfold_locales, goal_cases)
  case (3 a w w')
  then show ?case using fee_outside_custody fee_outside_of_wallet by blast
qed (simp_all add: fee_host_def)

subsection \<open>Two wallets of one token\<close>

definition demo_addresses :: "address set" where
  "demo_addresses = {''WALLET'', ''OTHER''}"

definition demo_estate :: "fee_token wallet \<Rightarrow> fee_token estate" where
  "demo_estate s = \<lparr>es_clock = 5, es_world = v_world s, es_wallets = (\<lambda>_. empty_wallet 0 demo_token)(''WALLET'' := s)\<rparr>"

lemma demo_estate_reach:
  "reach (estate_start (\<lambda>w. fee_free w \<and> (\<forall>a \<in> demo_addresses. 0 \<le> fee_bal w a)) demo_addresses)
     (estate_step (fee_host ''TOK'') demo_addresses (fee_outside_of demo_addresses)) (demo_estate demo_wallet)"
proof -
  let ?s = "empty_wallet 0 demo_token" and ?env = "demo_env 5 [''ADM'']"
  have "estate_start (\<lambda>w. fee_free w \<and> (\<forall>a \<in> demo_addresses. 0 \<le> fee_bal w a)) demo_addresses (demo_estate ?s)"
    by (simp add: estate_start_def demo_estate_def demo_addresses_def wallet_at_def wallet_fresh_def empty_wallet_def,
      simp add: demo_token_def fee_bal_def)
  moreover have at: "wallet_at (demo_estate ?s) ''WALLET'' = ?s"
    by (simp add: wallet_at_def demo_estate_def empty_wallet_def)
  then have "snd (invoke (vesting_call demo_op ?env) (wallet_at (demo_estate ?s) ''WALLET'')) = demo_wallet"
    by (simp add: demo_initialize invoke_def)
  then have "estate_step (fee_host ''TOK'') demo_addresses (fee_outside_of demo_addresses) (demo_estate ?s) (demo_estate demo_wallet)"
    using ecall [of "''WALLET''" demo_addresses ?env "fee_host ''TOK''" "demo_estate ?s" demo_wallet demo_op "fee_outside_of demo_addresses"]
    by (simp add: demo_estate_def demo_addresses_def demo_env_def)
  ultimately show ?thesis by (blast intro: reach_step reach_start)
qed

end
