(* ===== verification/Factory_State.thy ===== *)
theory Factory_State
  imports Soroban
begin

text \<open>
  The factory's data and helper functions: soroban/contracts/factory/src/types.rs and the free
  functions of lib.rs that do not create pools.

  The record \<open>'w factory\<close> is the contract's storage. A field \<open>fk_K\<close> is the entry \<open>DataKey::K\<close>: an
  option for an instance key, a map for a family of persistent keys. The live-until ledgers of the
  persistent entries are \<open>f_live_until\<close>, keyed by \<open>fkey\<close>, the persistent part of \<open>DataKey\<close>. An entry
  is never archived in the model; its live-until ledger only records how far its life was extended.
\<close>

subsection \<open>Types\<close>

datatype FactoryError =
    AlreadyInitialized | PoolNotFound | Unauthorized | NotInitialized | InvalidCreditRate
  | MinLockPeriodOutOfRange | InvalidGlobalMultiplier | PoolCountOverflow | PoolAdminMismatch
  | PoolUpgradeFailed | InvalidAsset | InvalidMinStakeAmount | PoolCreationPaused | InvalidWasmHash
  | MinLockPeriodTooShort | InvalidAdmin | PoolQueryFailed | SameWasmHash | MinLockPeriodAboveCeiling
  | EmptyBatch | BatchTooLarge

fun FactoryError_code :: "FactoryError \<Rightarrow> nat" where
  "FactoryError_code AlreadyInitialized = 1"
| "FactoryError_code PoolNotFound = 2"
| "FactoryError_code Unauthorized = 3"
| "FactoryError_code NotInitialized = 4"
| "FactoryError_code InvalidCreditRate = 5"
| "FactoryError_code MinLockPeriodOutOfRange = 6"
| "FactoryError_code InvalidGlobalMultiplier = 7"
| "FactoryError_code PoolCountOverflow = 8"
| "FactoryError_code PoolAdminMismatch = 9"
| "FactoryError_code PoolUpgradeFailed = 10"
| "FactoryError_code InvalidAsset = 11"
| "FactoryError_code InvalidMinStakeAmount = 12"
| "FactoryError_code PoolCreationPaused = 13"
| "FactoryError_code InvalidWasmHash = 14"
| "FactoryError_code MinLockPeriodTooShort = 15"
| "FactoryError_code InvalidAdmin = 16"
| "FactoryError_code PoolQueryFailed = 17"
| "FactoryError_code SameWasmHash = 18"
| "FactoryError_code MinLockPeriodAboveCeiling = 19"
| "FactoryError_code EmptyBatch = 20"
| "FactoryError_code BatchTooLarge = 20"

record PoolParams =
  pp_asset :: address
  pp_daily_rate :: u128
  pp_global_multiplier :: u32
  pp_min_lock_period :: u64
  pp_min_stake_amount :: i128

record PoolRecord =
  pr_address :: address
  pr_asset :: address
  pr_credit_rate :: i128
  pr_global_multiplier :: u32
  pr_min_lock_period :: u32
  pr_daily_rate :: u128
  pr_wasm_hash :: bytes

datatype PoolSort = PoolId | CreditRate | GlobalMultiplier | MinLockPeriod

record ListPoolsResponse =
  lp_records :: "(u32 \<times> PoolRecord) list"
  lp_next_start_id :: u32
  lp_total :: u32
  lp_has_more :: bool

record RefreshPoolTtlsResponse =
  rp_refreshed :: "u32 list"
  rp_end_id :: u32
  rp_missing :: u32

record PoolStatus =
  ps_address :: address
  ps_is_paused :: bool
  ps_total_staked :: i128

text \<open>The events, named after their second topic; the first is \<open>factory\<close>.\<close>

datatype factory_event =
    PoolGap u32
  | TvlSync u32 i128 i128
  | PoolCrtd u32 address address address i128 u32 u32 u128 bytes i128
  | TtlRef u32 u32
  | AdmXfr address address
  | PoolUpg u32 address bytes bytes
  | WasmSet bytes bytes
  | PauseCr address
  | UnpsCr address

datatype fkey =
    KPool u32 | KAssetPools address | KAssetPoolCount address | KPoolsByAdmin address
  | KPoolsByWasmHash bytes | KApprovedWasmHash bytes | KPoolTvl u32

record 'w factory =
  fk_Admin :: "address option"
  fk_PoolCount :: "u32 option"
  fk_WasmHash :: "bytes option"
  fk_PoolCreationPaused :: "bool option"
  fk_AdminTransferCount :: "u32 option"
  fk_UpgradeCount :: "u32 option"
  fk_TotalTvl :: "i128 option"
  fk_Pool :: "u32 \<Rightarrow> PoolRecord option"
  fk_AssetPools :: "address \<Rightarrow> u32 list option"
  fk_AssetPoolCount :: "address \<Rightarrow> u32 option"
  fk_PoolsByAdmin :: "address \<Rightarrow> u32 list option"
  fk_PoolsByWasmHash :: "bytes \<Rightarrow> u32 list option"
  fk_ApprovedWasmHash :: "bytes \<Rightarrow> bool option"
  fk_PoolTvl :: "u32 \<Rightarrow> i128 option"
  f_instance_live_until :: nat
  f_live_until :: "fkey \<Rightarrow> nat"
  f_events :: "factory_event list"
  f_world :: 'w

text \<open>A factory contract that has been deployed and not initialized.\<close>

definition empty_factory :: "nat \<Rightarrow> 'w \<Rightarrow> 'w factory" where
  "empty_factory live w = \<lparr>fk_Admin = None, fk_PoolCount = None, fk_WasmHash = None,
     fk_PoolCreationPaused = None, fk_AdminTransferCount = None, fk_UpgradeCount = None,
     fk_TotalTvl = None, fk_Pool = Map.empty, fk_AssetPools = Map.empty,
     fk_AssetPoolCount = Map.empty, fk_PoolsByAdmin = Map.empty, fk_PoolsByWasmHash = Map.empty,
     fk_ApprovedWasmHash = Map.empty, fk_PoolTvl = Map.empty, f_instance_live_until = live,
     f_live_until = (\<lambda>_. 0), f_events = [], f_world = w\<rparr>"

type_synonym ('w, 'a) fac = "('w factory, FactoryError, 'a) rust"

subsection \<open>Persistent entries\<close>

fun f_has :: "'w factory \<Rightarrow> fkey \<Rightarrow> bool" where
  "f_has s (KPool i) = (fk_Pool s i \<noteq> None)"
| "f_has s (KAssetPools a) = (fk_AssetPools s a \<noteq> None)"
| "f_has s (KAssetPoolCount a) = (fk_AssetPoolCount s a \<noteq> None)"
| "f_has s (KPoolsByAdmin a) = (fk_PoolsByAdmin s a \<noteq> None)"
| "f_has s (KPoolsByWasmHash w) = (fk_PoolsByWasmHash s w \<noteq> None)"
| "f_has s (KApprovedWasmHash w) = (fk_ApprovedWasmHash s w \<noteq> None)"
| "f_has s (KPoolTvl i) = (fk_PoolTvl s i \<noteq> None)"

text \<open>\<open>storage().persistent().set\<close>: a new entry starts with the network's minimum time to live.\<close>

definition f_put :: "'w env \<Rightarrow> fkey \<Rightarrow> ('w factory \<Rightarrow> 'w factory) \<Rightarrow> ('w, unit) fac" where
  "f_put env k write = modify (\<lambda>s.
     if f_has s k then write s
     else (write s)\<lparr>f_live_until := (f_live_until s)(k := unat (sequence env) + min_persistent_ttl (host env))\<rparr>)"

text \<open>\<open>storage().persistent().extend_ttl\<close>: traps when the entry is absent.\<close>

definition TTL_THRESHOLD :: u32 where "TTL_THRESHOLD = 518400"
definition TTL_EXTEND_TO :: u32 where "TTL_EXTEND_TO = 1036800"

definition f_extend :: "'w env \<Rightarrow> fkey \<Rightarrow> ('w, unit) fac" where
  "f_extend env k s =
     (if f_has s k
      then Done () (s\<lparr>f_live_until := (f_live_until s)(k :=
        extend_ttl (host env) TTL_THRESHOLD TTL_EXTEND_TO (sequence env) (f_live_until s k))\<rparr>)
      else Trap)"

definition f_publish :: "factory_event \<Rightarrow> ('w, unit) fac" where
  "f_publish ev = modify (\<lambda>s. s\<lparr>f_events := f_events s @ [ev]\<rparr>)"

text \<open>A cross-contract call: the outside state changes, the factory's own does not.\<close>

definition f_call :: "('w \<Rightarrow> 'a \<times> 'w) \<Rightarrow> ('w, 'a) fac" where
  "f_call c s = (let (x, w) = c (f_world s) in Done x (s\<lparr>f_world := w\<rparr>))"

definition f_invoke :: "('w \<Rightarrow> ('a \<times> 'w) option) \<Rightarrow> ('w, 'a) fac" where
  "f_invoke c s = (case c (f_world s) of None \<Rightarrow> Trap | Some (x, w) \<Rightarrow> Done x (s\<lparr>f_world := w\<rparr>))"

subsection \<open>Constants\<close>

definition MAX_POOL_SCAN_PER_CALL :: u32 where "MAX_POOL_SCAN_PER_CALL = 50"
definition LEDGERS_PER_DAY :: u128 where "LEDGERS_PER_DAY = 17280"
definition MIN_STAKE_AMOUNT :: i128 where "MIN_STAKE_AMOUNT = 1000000"
definition MAX_STAKE_AMOUNT :: i128 where "MAX_STAKE_AMOUNT = 10 ^ 18"
definition MIN_LOCK_PERIOD :: u32 where "MIN_LOCK_PERIOD = 1"
definition MAX_MIN_LOCK_PERIOD :: u32 where "MAX_MIN_LOCK_PERIOD = 63072000"
definition MAX_GLOBAL_MULTIPLIER :: u32 where "MAX_GLOBAL_MULTIPLIER = 1000"
definition MAX_CREDIT_RATE :: i128 where "MAX_CREDIT_RATE = 100000000"
definition MAX_DAILY_RATE :: u128 where "MAX_DAILY_RATE = of_int MAX_CREDIT_RATE * LEDGERS_PER_DAY"
definition MAX_BATCH_SIZE :: u32 where "MAX_BATCH_SIZE = 10"

text \<open>The page size of the listings, written as the literal 20 in the source.\<close>

definition page_cap :: "u32 \<Rightarrow> u32" where
  "page_cap limit = (if limit = 0 then 20 else min limit 20)"

subsection \<open>Helper functions\<close>

definition u128_div_ceil :: "u128 \<Rightarrow> u128 \<Rightarrow> u128" where
  "u128_div_ceil a b = (if a mod b > 0 then a div b + 1 else a div b)"

definition i128_try_from :: "u128 \<Rightarrow> i128 option" where
  "i128_try_from x = (if in_i128 (uint x) then Some (uint x) else None)"

definition daily_rate_to_credit_rate :: "u128 \<Rightarrow> ('w, i128) fac" where
  "daily_rate_to_credit_rate daily_rate =
     (if daily_rate = 0 then err InvalidCreditRate
      else
        let per_ledger = u128_div_ceil daily_rate LEDGERS_PER_DAY in
        and_then (ok_or InvalidCreditRate (i128_try_from per_ledger)) (\<lambda>credit_rate.
        and_then (ensure (\<not> credit_rate > MAX_CREDIT_RATE) InvalidCreditRate) (\<lambda>_.
        ok credit_rate)))"

definition publish_pool_gap :: "u32 \<Rightarrow> ('w, unit) fac" where
  "publish_pool_gap pool_id = f_publish (PoolGap pool_id)"

definition f_bump_instance :: "'w env \<Rightarrow> ('w, unit) fac" where
  "f_bump_instance env = modify (\<lambda>s. s\<lparr>f_instance_live_until :=
     extend_ttl (host env) TTL_THRESHOLD TTL_EXTEND_TO (sequence env) (f_instance_live_until s)\<rparr>)"

definition bump_pool :: "'w env \<Rightarrow> u32 \<Rightarrow> ('w, unit) fac" where
  "bump_pool env pool_id = f_extend env (KPool pool_id)"

definition bump_asset_pools :: "'w env \<Rightarrow> address \<Rightarrow> ('w, unit) fac" where
  "bump_asset_pools env asset = f_extend env (KAssetPools asset)"

definition bump_asset_pool_count :: "'w env \<Rightarrow> address \<Rightarrow> ('w, unit) fac" where
  "bump_asset_pool_count env asset = f_extend env (KAssetPoolCount asset)"

definition bump_admin_pools :: "'w env \<Rightarrow> address \<Rightarrow> ('w, unit) fac" where
  "bump_admin_pools env admin = f_extend env (KPoolsByAdmin admin)"

definition bump_pool_tvl :: "'w env \<Rightarrow> u32 \<Rightarrow> ('w, unit) fac" where
  "bump_pool_tvl env pool_id = f_extend env (KPoolTvl pool_id)"

definition bump_wasm_pools :: "'w env \<Rightarrow> bytes \<Rightarrow> ('w, unit) fac" where
  "bump_wasm_pools env wasm_hash = f_extend env (KPoolsByWasmHash wasm_hash)"

definition f_require_initialized :: "('w, unit) fac" where
  "f_require_initialized s = (if fk_Admin s = None then err NotInitialized s else ok () s)"

definition load_admin :: "('w, address) fac" where
  "load_admin = and_then (gets fk_Admin) (ok_or NotInitialized)"

definition load_wasm_hash :: "('w, bytes) fac" where
  "load_wasm_hash = and_then (gets fk_WasmHash) (ok_or NotInitialized)"

definition read_upgrade_count :: "('w, u32) fac" where
  "read_upgrade_count = gets (\<lambda>s. unwrap_or 0 (fk_UpgradeCount s))"

definition read_admin_transfer_count :: "('w, u32) fac" where
  "read_admin_transfer_count = gets (\<lambda>s. unwrap_or 0 (fk_AdminTransferCount s))"

definition read_total_tvl :: "('w, i128) fac" where
  "read_total_tvl = gets (\<lambda>s. unwrap_or 0 (fk_TotalTvl s))"

definition read_pool_tvl :: "u32 \<Rightarrow> ('w, i128) fac" where
  "read_pool_tvl pool_id = gets (\<lambda>s. unwrap_or 0 (fk_PoolTvl s pool_id))"

definition query_pool_tvl :: "'w env \<Rightarrow> address \<Rightarrow> ('w, i128) fac" where
  "query_pool_tvl env pool =
     and_then (f_call (\<lambda>w. try_total_staked (host env) w pool)) (ok_or PoolQueryFailed)"

definition apply_tvl_sync :: "'w env \<Rightarrow> u32 \<Rightarrow> address \<Rightarrow> ('w, i128) fac" where
  "apply_tvl_sync env pool_id pool =
     and_then (query_pool_tvl env pool) (\<lambda>live.
     and_then (read_pool_tvl pool_id) (\<lambda>previous.
     if live \<noteq> previous then
       and_then read_total_tvl (\<lambda>total_tvl.
       let aggregate = i128_saturating_sub (i128_saturating_add total_tvl live) previous in
       and_then (modify (\<lambda>s. s\<lparr>fk_TotalTvl := Some aggregate\<rparr>)) (\<lambda>_.
       and_then (f_put env (KPoolTvl pool_id) (\<lambda>s. s\<lparr>fk_PoolTvl := (fk_PoolTvl s)(pool_id \<mapsto> live)\<rparr>)) (\<lambda>_.
       and_then (bump_pool_tvl env pool_id) (\<lambda>_.
       and_then (f_publish (TvlSync pool_id previous live)) (\<lambda>_.
       ok live)))))
     else ok live))"

definition pool_salt :: "u32 \<Rightarrow> bytes" where
  "pool_salt pool_id = replicate 28 0 @ u32_to_be_bytes pool_id"

definition validate_asset :: "'w env \<Rightarrow> address \<Rightarrow> ('w, unit) fac" where
  "validate_asset env asset =
     and_then (f_call (\<lambda>w. try_symbol (host env) w asset)) (\<lambda>answers.
     and_then (ensure answers InvalidAsset) (\<lambda>_.
     and_then (f_call (\<lambda>w. try_balance (host env) w asset (current_contract env))) (\<lambda>balance.
     ensure (balance \<noteq> None) InvalidAsset)))"

definition increment_admin_transfer_count :: "('w, unit) fac" where
  "increment_admin_transfer_count =
     and_then read_admin_transfer_count (\<lambda>count.
     and_then (u32_add count 1) (\<lambda>next.
     modify (\<lambda>s. s\<lparr>fk_AdminTransferCount := Some next\<rparr>)))"

definition validate_factory_admin :: "address \<Rightarrow> ('w, unit) fac" where
  "validate_factory_admin admin = ensure (admin \<noteq> zero_address) InvalidAdmin"

subsection \<open>Sorting\<close>

text \<open>\<open>Ord::cmp\<close>, \<open>is_lt\<close> and \<open>is_eq\<close>.\<close>

datatype ordering = Less | Equal | Greater

definition ord_cmp :: "'a :: linorder \<Rightarrow> 'a \<Rightarrow> ordering" where
  "ord_cmp a b = (if a < b then Less else if a = b then Equal else Greater)"

definition sort_precedes :: "PoolSort \<Rightarrow> u32 \<times> PoolRecord \<Rightarrow> u32 \<times> PoolRecord \<Rightarrow> bool" where
  "sort_precedes key left right =
     (let ordering = (case key of
        PoolId \<Rightarrow> ord_cmp (fst left) (fst right)
      | CreditRate \<Rightarrow> ord_cmp (pr_credit_rate (snd left)) (pr_credit_rate (snd right))
      | GlobalMultiplier \<Rightarrow> ord_cmp (pr_global_multiplier (snd left)) (pr_global_multiplier (snd right))
      | MinLockPeriod \<Rightarrow> ord_cmp (pr_min_lock_period (snd left)) (pr_min_lock_period (snd right)))
      in ordering = Less \<or> (ordering = Equal \<and> fst left < fst right))"

text \<open>The loop of \<open>insert_sorted\<close> with its \<open>break\<close>: the first index whose record comes after the new one.\<close>

fun insert_position :: "PoolSort \<Rightarrow> u32 \<times> PoolRecord \<Rightarrow> (u32 \<times> PoolRecord) list \<Rightarrow> nat \<Rightarrow> nat \<Rightarrow> nat" where
  "insert_position key record [] index insert_at = insert_at"
| "insert_position key record (existing # rest) index insert_at =
     (if sort_precedes key record existing then index
      else insert_position key record rest (Suc index) insert_at)"

definition insert_sorted ::
  "(u32 \<times> PoolRecord) list \<Rightarrow> u32 \<times> PoolRecord \<Rightarrow> PoolSort \<Rightarrow> (u32 \<times> PoolRecord) list" where
  "insert_sorted records record key =
     (let insert_at = insert_position key record records 0 (length records)
      in take insert_at records @ record # drop insert_at records)"

end
