(* ===== verification/Factory.thy ===== *)
theory Factory
  imports Factory_State
begin

text \<open>
  The entry points of the factory, soroban/contracts/factory/src/lib.rs: one definition per function,
  in its order. \<open>create_pools_batch\<close> follows the evident layout of its two guards: the block of the
  emptiness check is closed before the size check (the source omits the closing brace).
\<close>

subsection \<open>Pool creation\<close>

definition u32_try_into :: "u64 \<Rightarrow> u32 option" where
  "u32_try_into x = (if unat x < 2 ^ 32 then Some (ucast x) else None)"

definition create_pool_inner ::
  "'w env \<Rightarrow> address \<Rightarrow> address \<Rightarrow> u128 \<Rightarrow> u32 \<Rightarrow> u64 \<Rightarrow> i128 \<Rightarrow> ('w, u32) fac" where
  "create_pool_inner env admin asset daily_rate global_multiplier min_lock_period min_stake_amount =
     and_then (f_bump_instance env) (\<lambda>_.
     and_then (gets (\<lambda>s. unwrap_or False (fk_PoolCreationPaused s))) (\<lambda>paused.
     and_then (ensure (\<not> paused) PoolCreationPaused) (\<lambda>_.
     and_then (validate_asset env asset) (\<lambda>_.
     and_then (ensure (asset \<noteq> zero_address) InvalidAsset) (\<lambda>_.
     and_then (ensure (asset \<noteq> current_contract env) InvalidAsset) (\<lambda>_.
     and_then (ensure (asset \<noteq> admin) InvalidAsset) (\<lambda>_.
     and_then (ensure (\<not> global_multiplier < 1) InvalidGlobalMultiplier) (\<lambda>_.
     and_then (ensure (\<not> global_multiplier > MAX_GLOBAL_MULTIPLIER) InvalidGlobalMultiplier) (\<lambda>_.
     and_then (ensure (\<not> daily_rate > MAX_DAILY_RATE) InvalidCreditRate) (\<lambda>_.
     and_then (daily_rate_to_credit_rate daily_rate) (\<lambda>credit_rate.
     and_then (ensure (\<not> (credit_rate \<le> 0 \<or> credit_rate > MAX_CREDIT_RATE)) InvalidCreditRate) (\<lambda>_.
     and_then (ensure (min_lock_period \<noteq> 0) MinLockPeriodTooShort) (\<lambda>_.
     and_then (ok_or MinLockPeriodOutOfRange (u32_try_into min_lock_period)) (\<lambda>min_lock_period.
     and_then (ensure (\<not> min_lock_period < MIN_LOCK_PERIOD) MinLockPeriodTooShort) (\<lambda>_.
     and_then (ensure (\<not> min_lock_period > MAX_MIN_LOCK_PERIOD) MinLockPeriodAboveCeiling) (\<lambda>_.
     and_then (ensure (\<not> min_stake_amount > MAX_STAKE_AMOUNT) InvalidMinStakeAmount) (\<lambda>_.
     and_then (ensure (\<not> min_stake_amount < - MAX_STAKE_AMOUNT) InvalidMinStakeAmount) (\<lambda>_.
     let effective_min_stake = (if min_stake_amount \<le> 0 then MIN_STAKE_AMOUNT else min_stake_amount) in
     and_then (ensure (MIN_STAKE_AMOUNT \<le> effective_min_stake \<and> effective_min_stake \<le> MAX_STAKE_AMOUNT)
       InvalidMinStakeAmount) (\<lambda>_.
     and_then (and_then (gets fk_PoolCount) unwrap) (\<lambda>pool_id.
     and_then (ok_or PoolCountOverflow (u32_checked_add pool_id 1)) (\<lambda>next_count.
     and_then (modify (\<lambda>s. s\<lparr>fk_PoolCount := Some next_count\<rparr>)) (\<lambda>_.
     and_then load_wasm_hash (\<lambda>wasm_hash.
     and_then (f_invoke (\<lambda>w. deploy_v2 (host env) w (current_contract env) (pool_salt pool_id) wasm_hash)) (\<lambda>pool_address.
     and_then (f_invoke (\<lambda>w. map_option (\<lambda>w'. ((), w')) (pool_initialize (host env) w pool_address
       \<lparr>ia_admin = admin, ia_asset = asset, ia_global_multiplier = global_multiplier,
        ia_credit_rate = credit_rate, ia_min_lock_period = min_lock_period,
        ia_min_stake_amount = effective_min_stake\<rparr>))) (\<lambda>_.
     let record = \<lparr>pr_address = pool_address, pr_asset = asset, pr_credit_rate = credit_rate,
       pr_global_multiplier = global_multiplier, pr_min_lock_period = min_lock_period,
       pr_daily_rate = daily_rate, pr_wasm_hash = wasm_hash\<rparr> in
     and_then (f_put env (KPool pool_id) (\<lambda>s. s\<lparr>fk_Pool := (fk_Pool s)(pool_id \<mapsto> record)\<rparr>)) (\<lambda>_.
     and_then (bump_pool env pool_id) (\<lambda>_.
     and_then (f_put env (KPoolTvl pool_id) (\<lambda>s. s\<lparr>fk_PoolTvl := (fk_PoolTvl s)(pool_id \<mapsto> 0)\<rparr>)) (\<lambda>_.
     and_then (bump_pool_tvl env pool_id) (\<lambda>_.
     and_then (gets (\<lambda>s. unwrap_or [] (fk_AssetPools s asset) @ [pool_id])) (\<lambda>asset_pool_ids.
     and_then (f_put env (KAssetPools asset) (\<lambda>s. s\<lparr>fk_AssetPools := (fk_AssetPools s)(asset \<mapsto> asset_pool_ids)\<rparr>)) (\<lambda>_.
     and_then (bump_asset_pools env asset) (\<lambda>_.
     and_then (gets (\<lambda>s. unwrap_or (u32_saturating_sub (vec_len asset_pool_ids) 1) (fk_AssetPoolCount s asset))) (\<lambda>stored.
     and_then (ok_or PoolCountOverflow (u32_checked_add stored 1)) (\<lambda>asset_pool_count.
     and_then (f_put env (KAssetPoolCount asset) (\<lambda>s. s\<lparr>fk_AssetPoolCount := (fk_AssetPoolCount s)(asset \<mapsto> asset_pool_count)\<rparr>)) (\<lambda>_.
     and_then (bump_asset_pool_count env asset) (\<lambda>_.
     and_then (gets (\<lambda>s. unwrap_or [] (fk_PoolsByAdmin s admin) @ [pool_id])) (\<lambda>admin_pool_ids.
     and_then (f_put env (KPoolsByAdmin admin) (\<lambda>s. s\<lparr>fk_PoolsByAdmin := (fk_PoolsByAdmin s)(admin \<mapsto> admin_pool_ids)\<rparr>)) (\<lambda>_.
     and_then (bump_admin_pools env admin) (\<lambda>_.
     and_then (f_publish (PoolCrtd pool_id pool_address admin asset credit_rate global_multiplier
       min_lock_period daily_rate wasm_hash effective_min_stake)) (\<lambda>_.
     ok pool_id))))))))))))))))))))))))))))))))))))))))"

subsection \<open>Initialization and simple reads\<close>

definition factory_initialize :: "'w env \<Rightarrow> address \<Rightarrow> bytes \<Rightarrow> ('w, unit) fac" where
  "factory_initialize env admin pool_wasm_hash =
     and_then (gets fk_Admin) (\<lambda>stored.
     and_then (ensure (stored = None) AlreadyInitialized) (\<lambda>_.
     and_then (ensure (admin \<noteq> zero_address) InvalidAdmin) (\<lambda>_.
     and_then (ensure (pool_wasm_hash \<noteq> zero_hash) InvalidWasmHash) (\<lambda>_.
     and_then (modify (\<lambda>s. s\<lparr>fk_Admin := Some admin\<rparr>)) (\<lambda>_.
     and_then (modify (\<lambda>s. s\<lparr>fk_WasmHash := Some pool_wasm_hash\<rparr>)) (\<lambda>_.
     and_then (f_put env (KApprovedWasmHash pool_wasm_hash)
       (\<lambda>s. s\<lparr>fk_ApprovedWasmHash := (fk_ApprovedWasmHash s)(pool_wasm_hash \<mapsto> True)\<rparr>)) (\<lambda>_.
     and_then load_wasm_hash (\<lambda>approved_hash.
     and_then (f_extend env (KApprovedWasmHash approved_hash)) (\<lambda>_.
     and_then (modify (\<lambda>s. s\<lparr>fk_PoolCount := Some 0\<rparr>)) (\<lambda>_.
     f_bump_instance env))))))))))"

definition factory_admin :: "'w env \<Rightarrow> ('w, address) fac" where
  "factory_admin env =
     and_then f_require_initialized (\<lambda>_.
     and_then (f_bump_instance env) (\<lambda>_.
     load_admin))"

definition pool_wasm_hash :: "'w env \<Rightarrow> ('w, bytes) fac" where
  "pool_wasm_hash env =
     and_then f_require_initialized (\<lambda>_.
     and_then (f_bump_instance env) (\<lambda>_.
     load_wasm_hash))"

definition pool_count :: "'w env \<Rightarrow> ('w, u32) fac" where
  "pool_count env =
     and_then f_require_initialized (\<lambda>_.
     and_then (f_bump_instance env) (\<lambda>_.
     gets (\<lambda>s. unwrap_or 0 (fk_PoolCount s))))"

definition pool_exists :: "'w env \<Rightarrow> u32 \<Rightarrow> ('w, bool) fac" where
  "pool_exists env pool_id =
     and_then f_require_initialized (\<lambda>_.
     and_then (f_bump_instance env) (\<lambda>_.
     and_then (gets (\<lambda>s. f_has s (KPool pool_id))) (\<lambda>exists.
     and_then (if exists then bump_pool env pool_id else ok ()) (\<lambda>_.
     ok exists))))"

definition get_pool :: "'w env \<Rightarrow> u32 \<Rightarrow> ('w, PoolRecord) fac" where
  "get_pool env pool_id =
     and_then f_require_initialized (\<lambda>_.
     and_then (f_bump_instance env) (\<lambda>_.
     and_then (gets (\<lambda>s. fk_Pool s pool_id)) (\<lambda>found.
     case found of
       Some r \<Rightarrow> and_then (bump_pool env pool_id) (\<lambda>_. ok r)
     | None \<Rightarrow> err PoolNotFound)))"

subsection \<open>Listings\<close>

definition list_pools :: "'w env \<Rightarrow> u32 \<Rightarrow> u32 \<Rightarrow> ('w, ListPoolsResponse) fac" where
  "list_pools env start_id limit =
     and_then f_require_initialized (\<lambda>_.
     and_then (f_bump_instance env) (\<lambda>_.
     and_then (gets (\<lambda>s. unwrap_or 0 (fk_PoolCount s))) (\<lambda>count.
     if start_id \<ge> count then
       ok \<lparr>lp_records = [], lp_next_start_id = count, lp_total = count, lp_has_more = False\<rparr>
     else
       let end = min (u32_saturating_add start_id (page_cap limit)) count in
       and_then (for_each (u32_range start_id end) [] (\<lambda>pool_id records.
         and_then (gets (\<lambda>s. fk_Pool s pool_id)) (\<lambda>found.
         case found of
           Some record \<Rightarrow> and_then (bump_pool env pool_id) (\<lambda>_. ok (records @ [(pool_id, record)]))
         | None \<Rightarrow> and_then (publish_pool_gap pool_id) (\<lambda>_. ok records)))) (\<lambda>records.
       ok \<lparr>lp_records = records, lp_next_start_id = (if end < count then end else count),
           lp_total = count, lp_has_more = end < count\<rparr>))))"

definition list_pools_sorted :: "'w env \<Rightarrow> u32 \<Rightarrow> u32 \<Rightarrow> PoolSort \<Rightarrow> ('w, ListPoolsResponse) fac" where
  "list_pools_sorted env start_id limit key =
     and_then f_require_initialized (\<lambda>_.
     and_then (f_bump_instance env) (\<lambda>_.
     and_then (gets (\<lambda>s. unwrap_or 0 (fk_PoolCount s))) (\<lambda>count.
     if start_id \<ge> count then
       ok \<lparr>lp_records = [], lp_next_start_id = count, lp_total = count, lp_has_more = False\<rparr>
     else
       let end = min (u32_saturating_add start_id (page_cap limit)) count in
       and_then (for_each (u32_range start_id end) [] (\<lambda>pool_id records.
         and_then (gets (\<lambda>s. fk_Pool s pool_id)) (\<lambda>found.
         case found of
           Some record \<Rightarrow> and_then (bump_pool env pool_id) (\<lambda>_. ok (insert_sorted records (pool_id, record) key))
         | None \<Rightarrow> and_then (publish_pool_gap pool_id) (\<lambda>_. ok records)))) (\<lambda>records.
       ok \<lparr>lp_records = records, lp_next_start_id = (if end < count then end else count),
           lp_total = count, lp_has_more = end < count\<rparr>))))"

text \<open>The two loops of \<open>get_pools_by_asset_range\<close>, each with its \<open>continue\<close> and \<open>break\<close>.\<close>

fun scan_asset_index ::
  "'w env \<Rightarrow> u32 \<Rightarrow> u32 \<Rightarrow> u32 \<Rightarrow> u32 list \<Rightarrow> (u32 \<times> PoolRecord) list \<Rightarrow> u32 \<Rightarrow>
   ('w, (u32 \<times> PoolRecord) list \<times> u32) fac" where
  "scan_asset_index env start_id scan_end capped_limit [] records next_start_id = ok (records, next_start_id)"
| "scan_asset_index env start_id scan_end capped_limit (pool_id # rest) records next_start_id =
     (if pool_id < start_id then
        scan_asset_index env start_id scan_end capped_limit rest records next_start_id
      else if pool_id \<ge> scan_end then ok (records, scan_end)
      else if vec_len records \<ge> capped_limit then ok (records, pool_id)
      else
        and_then (gets (\<lambda>s. fk_Pool s pool_id)) (\<lambda>found.
        and_then (case found of
            Some record \<Rightarrow> and_then (bump_pool env pool_id) (\<lambda>_. ok (records @ [(pool_id, record)]))
          | None \<Rightarrow> ok records) (\<lambda>records'.
        scan_asset_index env start_id scan_end capped_limit rest records' next_start_id)))"

fun scan_registry ::
  "'w env \<Rightarrow> address \<Rightarrow> u32 \<Rightarrow> u32 list \<Rightarrow> (u32 \<times> PoolRecord) list \<Rightarrow> u32 \<Rightarrow>
   ('w, (u32 \<times> PoolRecord) list \<times> u32) fac" where
  "scan_registry env asset capped_limit [] records next_start_id = ok (records, next_start_id)"
| "scan_registry env asset capped_limit (pool_id # rest) records next_start_id =
     (if vec_len records \<ge> capped_limit then ok (records, pool_id)
      else
        and_then (gets (\<lambda>s. fk_Pool s pool_id)) (\<lambda>found.
        and_then (case found of
            Some record \<Rightarrow>
              if pr_asset record = asset
              then and_then (bump_pool env pool_id) (\<lambda>_. ok (records @ [(pool_id, record)]))
              else ok records
          | None \<Rightarrow> ok records) (\<lambda>records'.
        scan_registry env asset capped_limit rest records' next_start_id)))"

definition get_pools_by_asset_range ::
  "'w env \<Rightarrow> address \<Rightarrow> u32 \<Rightarrow> u32 \<Rightarrow> u32 \<Rightarrow> ('w, ListPoolsResponse) fac" where
  "get_pools_by_asset_range env asset start_id scan_limit limit =
     and_then f_require_initialized (\<lambda>_.
     and_then (f_bump_instance env) (\<lambda>_.
     and_then (gets (\<lambda>s. unwrap_or 0 (fk_PoolCount s))) (\<lambda>count.
     if start_id \<ge> count then
       ok \<lparr>lp_records = [], lp_next_start_id = count, lp_total = count, lp_has_more = False\<rparr>
     else
       let effective_scan = (if scan_limit = 0 then MAX_POOL_SCAN_PER_CALL
             else min scan_limit MAX_POOL_SCAN_PER_CALL);
           scan_end = min (u32_saturating_add start_id effective_scan) count in
       and_then (gets (\<lambda>s. fk_AssetPools s asset)) (\<lambda>index.
       and_then (case index of
           Some asset_ids \<Rightarrow>
             and_then (bump_asset_pools env asset) (\<lambda>_.
             scan_asset_index env start_id scan_end (page_cap limit) asset_ids [] scan_end)
         | None \<Rightarrow> scan_registry env asset (page_cap limit) (u32_range start_id scan_end) [] scan_end)
         (\<lambda>(records, next_start_id).
       ok \<lparr>lp_records = records, lp_next_start_id = next_start_id, lp_total = count,
           lp_has_more = next_start_id < count\<rparr>)))))"

definition get_pools_by_asset :: "'w env \<Rightarrow> address \<Rightarrow> u32 \<Rightarrow> u32 \<Rightarrow> ('w, ListPoolsResponse) fac" where
  "get_pools_by_asset env asset start_id limit =
     get_pools_by_asset_range env asset start_id MAX_POOL_SCAN_PER_CALL limit"

definition pool_count_by_asset :: "'w env \<Rightarrow> address \<Rightarrow> ('w, u32) fac" where
  "pool_count_by_asset env asset =
     and_then f_require_initialized (\<lambda>_.
     and_then (f_bump_instance env) (\<lambda>_.
     and_then (gets (\<lambda>s. fk_AssetPoolCount s asset)) (\<lambda>stored.
     case stored of
       Some count \<Rightarrow> and_then (bump_asset_pool_count env asset) (\<lambda>_. ok count)
     | None \<Rightarrow>
         and_then (gets (\<lambda>s. vec_len (unwrap_or [] (fk_AssetPools s asset)))) (\<lambda>count.
         and_then
           (if count > 0
            then and_then (f_put env (KAssetPoolCount asset)
                (\<lambda>s. s\<lparr>fk_AssetPoolCount := (fk_AssetPoolCount s)(asset \<mapsto> count)\<rparr>)) (\<lambda>_.
              bump_asset_pool_count env asset)
            else ok ()) (\<lambda>_.
         ok count)))))"

definition get_pools_by_admin :: "'w env \<Rightarrow> address \<Rightarrow> ('w, u32 list) fac" where
  "get_pools_by_admin env admin =
     and_then f_require_initialized (\<lambda>_.
     and_then (f_bump_instance env) (\<lambda>_.
     and_then (gets (\<lambda>s. f_has s (KPoolsByAdmin admin))) (\<lambda>has.
     and_then (if has then bump_admin_pools env admin else ok ()) (\<lambda>_.
     gets (\<lambda>s. unwrap_or [] (fk_PoolsByAdmin s admin))))))"

definition get_admin_pool_count :: "'w env \<Rightarrow> address \<Rightarrow> ('w, u32) fac" where
  "get_admin_pool_count env admin = and_then (get_pools_by_admin env admin) (\<lambda>ids. ok (vec_len ids))"

definition refresh_pool_ttls :: "'w env \<Rightarrow> u32 \<Rightarrow> u32 \<Rightarrow> ('w, RefreshPoolTtlsResponse) fac" where
  "refresh_pool_ttls env start_id limit =
     and_then f_require_initialized (\<lambda>_.
     and_then (f_bump_instance env) (\<lambda>_.
     and_then (gets (\<lambda>s. unwrap_or 0 (fk_PoolCount s))) (\<lambda>count.
     let end = min (u32_saturating_add start_id (min limit 20)) count in
     and_then (for_each (u32_range start_id end) ([], 0) (\<lambda>pool_id (refreshed, missing).
       and_then (gets (\<lambda>s. f_has s (KPool pool_id))) (\<lambda>has.
       if has then and_then (bump_pool env pool_id) (\<lambda>_. ok (refreshed @ [pool_id], missing))
       else and_then (u32_add missing 1) (\<lambda>missing'. ok (refreshed, missing'))))) (\<lambda>(refreshed, missing).
     and_then (f_publish (TtlRef start_id end)) (\<lambda>_.
     ok \<lparr>rp_refreshed = refreshed, rp_end_id = end, rp_missing = missing\<rparr>)))))"

subsection \<open>Administration\<close>

definition factory_transfer_admin :: "'w env \<Rightarrow> address \<Rightarrow> ('w, unit) fac" where
  "factory_transfer_admin env new_admin =
     and_then f_require_initialized (\<lambda>_.
     and_then load_admin (\<lambda>current.
     and_then (require_auth env current) (\<lambda>_.
     and_then (f_bump_instance env) (\<lambda>_.
     and_then (ensure (new_admin \<noteq> zero_address) InvalidAdmin) (\<lambda>_.
     and_then (f_publish (AdmXfr current new_admin)) (\<lambda>_.
     and_then (modify (\<lambda>s. s\<lparr>fk_Admin := Some new_admin\<rparr>)) (\<lambda>_.
     increment_admin_transfer_count)))))))"

definition admin_transfer_count :: "'w env \<Rightarrow> ('w, u32) fac" where
  "admin_transfer_count env =
     and_then f_require_initialized (\<lambda>_.
     and_then (f_bump_instance env) (\<lambda>_.
     read_admin_transfer_count))"

definition get_admin_transfer_count :: "'w env \<Rightarrow> ('w, u32) fac" where
  "get_admin_transfer_count env = admin_transfer_count env"

definition upgrade_pool_inner :: "'w env \<Rightarrow> address \<Rightarrow> u32 \<Rightarrow> bytes \<Rightarrow> ('w, unit) fac" where
  "upgrade_pool_inner env admin pool_id new_wasm_hash =
     and_then (and_then (gets (\<lambda>s. fk_Pool s pool_id)) (ok_or PoolNotFound)) (\<lambda>record.
     and_then (bump_pool env pool_id) (\<lambda>_.
     and_then (f_call (\<lambda>w. try_pool_admin (host env) w (pr_address record))) (\<lambda>pool_admin_res.
     and_then (ok_or PoolUpgradeFailed pool_admin_res) (\<lambda>pool_admin.
     and_then (ensure (pool_admin = admin) PoolAdminMismatch) (\<lambda>_.
     and_then (ensure (new_wasm_hash \<noteq> pr_wasm_hash record) PoolUpgradeFailed) (\<lambda>_.
     and_then (ensure (new_wasm_hash \<noteq> zero_hash) InvalidWasmHash) (\<lambda>_.
     and_then (f_call (\<lambda>w. try_upgrade (host env) w (pr_address record) new_wasm_hash)) (\<lambda>upgraded.
     and_then (ensure upgraded PoolUpgradeFailed) (\<lambda>_.
     let old_hash = pr_wasm_hash record; record' = record\<lparr>pr_wasm_hash := new_wasm_hash\<rparr> in
     and_then (f_put env (KPool pool_id) (\<lambda>s. s\<lparr>fk_Pool := (fk_Pool s)(pool_id \<mapsto> record')\<rparr>)) (\<lambda>_.
     and_then (gets (\<lambda>s. fk_PoolsByWasmHash s old_hash)) (\<lambda>old_pool_ids.
     and_then (case old_pool_ids of
         Some ids \<Rightarrow> f_put env (KPoolsByWasmHash old_hash) (\<lambda>s. s\<lparr>fk_PoolsByWasmHash :=
           (fk_PoolsByWasmHash s)(old_hash \<mapsto> filter (\<lambda>i. i \<noteq> pool_id) ids)\<rparr>)
       | None \<Rightarrow> ok ()) (\<lambda>_.
     and_then (gets (\<lambda>s. unwrap_or [] (fk_PoolsByWasmHash s new_wasm_hash) @ [pool_id])) (\<lambda>new_pool_ids.
     and_then (f_put env (KPoolsByWasmHash new_wasm_hash) (\<lambda>s. s\<lparr>fk_PoolsByWasmHash :=
       (fk_PoolsByWasmHash s)(new_wasm_hash \<mapsto> new_pool_ids)\<rparr>)) (\<lambda>_.
     and_then (bump_wasm_pools env new_wasm_hash) (\<lambda>_.
     and_then read_upgrade_count (\<lambda>upgrades.
     and_then (modify (\<lambda>s. s\<lparr>fk_UpgradeCount := Some (u32_saturating_add upgrades 1)\<rparr>)) (\<lambda>_.
     f_publish (PoolUpg pool_id (pr_address record') old_hash new_wasm_hash))))))))))))))))))"

definition upgrade_pool :: "'w env \<Rightarrow> u32 \<Rightarrow> bytes \<Rightarrow> ('w, unit) fac" where
  "upgrade_pool env pool_id new_wasm_hash =
     and_then f_require_initialized (\<lambda>_.
     and_then load_admin (\<lambda>admin.
     and_then (validate_factory_admin admin) (\<lambda>_.
     and_then (require_auth env admin) (\<lambda>_.
     and_then (f_bump_instance env) (\<lambda>_.
     upgrade_pool_inner env admin pool_id new_wasm_hash)))))"

definition upgrade_pools_batch :: "'w env \<Rightarrow> u32 list \<Rightarrow> bytes \<Rightarrow> ('w, unit) fac" where
  "upgrade_pools_batch env pool_ids new_wasm_hash =
     and_then f_require_initialized (\<lambda>_.
     and_then load_admin (\<lambda>admin.
     and_then (validate_factory_admin admin) (\<lambda>_.
     and_then (require_auth env admin) (\<lambda>_.
     and_then (f_bump_instance env) (\<lambda>_.
     for_each pool_ids () (\<lambda>pool_id _. upgrade_pool_inner env admin pool_id new_wasm_hash))))))"

definition upgrade_count :: "'w env \<Rightarrow> ('w, u32) fac" where
  "upgrade_count env =
     and_then f_require_initialized (\<lambda>_.
     and_then (f_bump_instance env) (\<lambda>_.
     read_upgrade_count))"

subsection \<open>Total value locked\<close>

definition total_tvl :: "'w env \<Rightarrow> ('w, i128) fac" where
  "total_tvl env =
     and_then f_require_initialized (\<lambda>_.
     and_then (f_bump_instance env) (\<lambda>_.
     read_total_tvl))"

definition pool_tvl_synced :: "'w env \<Rightarrow> u32 \<Rightarrow> ('w, i128) fac" where
  "pool_tvl_synced env pool_id =
     and_then f_require_initialized (\<lambda>_.
     and_then (f_bump_instance env) (\<lambda>_.
     and_then (gets (\<lambda>s. f_has s (KPool pool_id))) (\<lambda>has.
     and_then (ensure has PoolNotFound) (\<lambda>_.
     read_pool_tvl pool_id))))"

definition pool_tvl :: "'w env \<Rightarrow> u32 \<Rightarrow> ('w, i128) fac" where
  "pool_tvl env pool_id =
     and_then f_require_initialized (\<lambda>_.
     and_then (f_bump_instance env) (\<lambda>_.
     and_then (and_then (gets (\<lambda>s. fk_Pool s pool_id)) (ok_or PoolNotFound)) (\<lambda>record.
     and_then (bump_pool env pool_id) (\<lambda>_.
     query_pool_tvl env (pr_address record)))))"

definition sync_pool_tvl :: "'w env \<Rightarrow> u32 \<Rightarrow> ('w, i128) fac" where
  "sync_pool_tvl env pool_id =
     and_then f_require_initialized (\<lambda>_.
     and_then (f_bump_instance env) (\<lambda>_.
     and_then (and_then (gets (\<lambda>s. fk_Pool s pool_id)) (ok_or PoolNotFound)) (\<lambda>record.
     and_then (bump_pool env pool_id) (\<lambda>_.
     apply_tvl_sync env pool_id (pr_address record)))))"

text \<open>The \<open>while\<close> loop of \<open>sync_all_pool_tvls\<close>.\<close>

function sync_loop :: "'w env \<Rightarrow> u32 \<Rightarrow> u32 \<Rightarrow> ('w, unit) fac" where
  "sync_loop env pool_id end =
     (if pool_id < end then
        and_then (gets (\<lambda>s. fk_Pool s pool_id)) (\<lambda>found.
        and_then (case found of
            Some record \<Rightarrow> ignore_result (apply_tvl_sync env pool_id (pr_address record))
          | None \<Rightarrow> ok ()) (\<lambda>_.
        sync_loop env (pool_id + 1) end))
      else ok ())"
  by pat_completeness auto

termination
  by (relation "measure (\<lambda>(env, pool_id, end). unat end - unat pool_id)")
    (auto simp: unat_u32_Suc word_less_nat_alt)

declare sync_loop.simps [simp del]

definition sync_all_pool_tvls :: "'w env \<Rightarrow> u32 \<Rightarrow> u32 \<Rightarrow> ('w, u32) fac" where
  "sync_all_pool_tvls env start_id limit =
     and_then f_require_initialized (\<lambda>_.
     and_then (f_bump_instance env) (\<lambda>_.
     and_then (gets (\<lambda>s. unwrap_or 0 (fk_PoolCount s))) (\<lambda>count.
     let window = min limit MAX_POOL_SCAN_PER_CALL;
         end = min (u32_saturating_add start_id window) count in
     and_then (sync_loop env start_id end) (\<lambda>_.
     ok end))))"

definition pool_status :: "'w env \<Rightarrow> u32 \<Rightarrow> ('w, PoolStatus) fac" where
  "pool_status env pool_id =
     and_then f_require_initialized (\<lambda>_.
     and_then (f_bump_instance env) (\<lambda>_.
     and_then (and_then (gets (\<lambda>s. fk_Pool s pool_id)) (ok_or PoolNotFound)) (\<lambda>record.
     and_then (bump_pool env pool_id) (\<lambda>_.
     and_then (f_call (\<lambda>w. try_is_paused (host env) w (pr_address record))) (\<lambda>paused_res.
     and_then (ok_or PoolQueryFailed paused_res) (\<lambda>is_paused.
     and_then (f_call (\<lambda>w. try_total_staked (host env) w (pr_address record))) (\<lambda>staked_res.
     and_then (ok_or PoolQueryFailed staked_res) (\<lambda>total_staked.
     ok \<lparr>ps_address = pr_address record, ps_is_paused = is_paused, ps_total_staked = total_staked\<rparr>))))))))"

subsection \<open>Deployment settings\<close>

definition set_pool_wasm_hash :: "'w env \<Rightarrow> bytes \<Rightarrow> ('w, unit) fac" where
  "set_pool_wasm_hash env new_hash =
     and_then f_require_initialized (\<lambda>_.
     and_then load_admin (\<lambda>admin.
     and_then (require_auth env admin) (\<lambda>_.
     and_then (f_bump_instance env) (\<lambda>_.
     and_then (ensure (new_hash \<noteq> zero_hash) InvalidWasmHash) (\<lambda>_.
     and_then (and_then (gets fk_WasmHash) unwrap) (\<lambda>old_hash.
     and_then (ensure (new_hash \<noteq> old_hash) SameWasmHash) (\<lambda>_.
     and_then (f_put env (KApprovedWasmHash new_hash)
       (\<lambda>s. s\<lparr>fk_ApprovedWasmHash := (fk_ApprovedWasmHash s)(new_hash \<mapsto> True)\<rparr>)) (\<lambda>_.
     and_then (f_extend env (KApprovedWasmHash new_hash)) (\<lambda>_.
     and_then (modify (\<lambda>s. s\<lparr>fk_WasmHash := Some new_hash\<rparr>)) (\<lambda>_.
     f_publish (WasmSet old_hash new_hash)))))))))))"

definition pause_pool_creation :: "'w env \<Rightarrow> ('w, unit) fac" where
  "pause_pool_creation env =
     and_then f_require_initialized (\<lambda>_.
     and_then load_admin (\<lambda>admin.
     and_then (require_auth env admin) (\<lambda>_.
     and_then (f_bump_instance env) (\<lambda>_.
     and_then (modify (\<lambda>s. s\<lparr>fk_PoolCreationPaused := Some True\<rparr>)) (\<lambda>_.
     f_publish (PauseCr admin))))))"

definition unpause_pool_creation :: "'w env \<Rightarrow> ('w, unit) fac" where
  "unpause_pool_creation env =
     and_then f_require_initialized (\<lambda>_.
     and_then load_admin (\<lambda>admin.
     and_then (require_auth env admin) (\<lambda>_.
     and_then (f_bump_instance env) (\<lambda>_.
     and_then (modify (\<lambda>s. s\<lparr>fk_PoolCreationPaused := Some False\<rparr>)) (\<lambda>_.
     f_publish (UnpsCr admin))))))"

definition is_pool_creation_paused :: "'w env \<Rightarrow> ('w, bool) fac" where
  "is_pool_creation_paused env =
     and_then f_require_initialized (\<lambda>_.
     and_then (f_bump_instance env) (\<lambda>_.
     gets (\<lambda>s. unwrap_or False (fk_PoolCreationPaused s))))"

definition create_pool :: "'w env \<Rightarrow> address \<Rightarrow> u128 \<Rightarrow> u32 \<Rightarrow> u64 \<Rightarrow> i128 \<Rightarrow> ('w, u32) fac" where
  "create_pool env asset daily_rate global_multiplier min_lock_period min_stake_amount =
     and_then f_require_initialized (\<lambda>_.
     and_then load_admin (\<lambda>admin.
     and_then (validate_factory_admin admin) (\<lambda>_.
     and_then (require_auth env admin) (\<lambda>_.
     create_pool_inner env admin asset daily_rate global_multiplier min_lock_period min_stake_amount))))"

definition create_pools_batch :: "'w env \<Rightarrow> PoolParams list \<Rightarrow> ('w, u32 list) fac" where
  "create_pools_batch env pools =
     and_then f_require_initialized (\<lambda>_.
     and_then load_admin (\<lambda>admin.
     and_then (validate_factory_admin admin) (\<lambda>_.
     and_then (require_auth env admin) (\<lambda>_.
     and_then (ensure (pools \<noteq> []) EmptyBatch) (\<lambda>_.
     and_then (ensure (\<not> vec_len pools > MAX_BATCH_SIZE) BatchTooLarge) (\<lambda>_.
     for_each pools [] (\<lambda>params pool_ids.
       and_then (create_pool_inner env admin (pp_asset params) (pp_daily_rate params)
         (pp_global_multiplier params) (pp_min_lock_period params) (pp_min_stake_amount params)) (\<lambda>pool_id.
       ok (pool_ids @ [pool_id])))))))))"

end
