(* ===== verification/Factory_Proofs.thy ===== *)
theory Factory_Proofs
  imports Factory Transition
begin

text \<open>
  Single calls of the factory. Times to live are one concern and the registry is another: \<open>core s\<close>
  is the factory without its live-until ledgers, and the effect of every entry point is stated as
  an update of \<open>core\<close>. The lemmas on times to live are separate (\<open>ttl_le\<close>).
\<close>

subsection \<open>The factory without times to live\<close>

definition core :: "'w factory \<Rightarrow> 'w factory" where
  "core s = s\<lparr>f_instance_live_until := 0, f_live_until := (\<lambda>_. 0)\<rparr>"

definition f_stored :: "'w env \<Rightarrow> fkey \<Rightarrow> 'w factory \<Rightarrow> 'w factory \<Rightarrow> 'w factory" where
  "f_stored env k s t = (if f_has s k then t
     else t\<lparr>f_live_until := (f_live_until s)(k := unat (sequence env) + min_persistent_ttl (host env))\<rparr>)"

definition f_extended :: "'w env \<Rightarrow> fkey \<Rightarrow> 'w factory \<Rightarrow> 'w factory" where
  "f_extended env k s = s\<lparr>f_live_until := (f_live_until s)(k :=
     extend_ttl (host env) TTL_THRESHOLD TTL_EXTEND_TO (sequence env) (f_live_until s k))\<rparr>"

definition f_bumped :: "'w env \<Rightarrow> 'w factory \<Rightarrow> 'w factory" where
  "f_bumped env s = s\<lparr>f_instance_live_until :=
     extend_ttl (host env) TTL_THRESHOLD TTL_EXTEND_TO (sequence env) (f_instance_live_until s)\<rparr>"

lemma core_fields [simp]:
  "fk_Admin (core s) = fk_Admin s" "fk_PoolCount (core s) = fk_PoolCount s" "fk_WasmHash (core s) = fk_WasmHash s"
  "fk_PoolCreationPaused (core s) = fk_PoolCreationPaused s" "fk_AdminTransferCount (core s) = fk_AdminTransferCount s" "fk_UpgradeCount (core s) = fk_UpgradeCount s"
  "fk_TotalTvl (core s) = fk_TotalTvl s" "fk_Pool (core s) = fk_Pool s" "fk_AssetPools (core s) = fk_AssetPools s"
  "fk_AssetPoolCount (core s) = fk_AssetPoolCount s" "fk_PoolsByAdmin (core s) = fk_PoolsByAdmin s" "fk_PoolsByWasmHash (core s) = fk_PoolsByWasmHash s"
  "fk_ApprovedWasmHash (core s) = fk_ApprovedWasmHash s" "fk_PoolTvl (core s) = fk_PoolTvl s" "f_events (core s) = f_events s"
  "f_world (core s) = f_world s"
  by (simp_all add: core_def)

lemma f_extended_fields [simp]:
  "fk_Admin (f_extended env k s) = fk_Admin s" "fk_PoolCount (f_extended env k s) = fk_PoolCount s" "fk_WasmHash (f_extended env k s) = fk_WasmHash s"
  "fk_PoolCreationPaused (f_extended env k s) = fk_PoolCreationPaused s" "fk_AdminTransferCount (f_extended env k s) = fk_AdminTransferCount s" "fk_UpgradeCount (f_extended env k s) = fk_UpgradeCount s"
  "fk_TotalTvl (f_extended env k s) = fk_TotalTvl s" "fk_Pool (f_extended env k s) = fk_Pool s" "fk_AssetPools (f_extended env k s) = fk_AssetPools s"
  "fk_AssetPoolCount (f_extended env k s) = fk_AssetPoolCount s" "fk_PoolsByAdmin (f_extended env k s) = fk_PoolsByAdmin s" "fk_PoolsByWasmHash (f_extended env k s) = fk_PoolsByWasmHash s"
  "fk_ApprovedWasmHash (f_extended env k s) = fk_ApprovedWasmHash s" "fk_PoolTvl (f_extended env k s) = fk_PoolTvl s" "f_events (f_extended env k s) = f_events s"
  "f_world (f_extended env k s) = f_world s"
  by (simp_all add: f_extended_def)

lemma f_bumped_fields [simp]:
  "fk_Admin (f_bumped env s) = fk_Admin s" "fk_PoolCount (f_bumped env s) = fk_PoolCount s" "fk_WasmHash (f_bumped env s) = fk_WasmHash s"
  "fk_PoolCreationPaused (f_bumped env s) = fk_PoolCreationPaused s" "fk_AdminTransferCount (f_bumped env s) = fk_AdminTransferCount s" "fk_UpgradeCount (f_bumped env s) = fk_UpgradeCount s"
  "fk_TotalTvl (f_bumped env s) = fk_TotalTvl s" "fk_Pool (f_bumped env s) = fk_Pool s" "fk_AssetPools (f_bumped env s) = fk_AssetPools s"
  "fk_AssetPoolCount (f_bumped env s) = fk_AssetPoolCount s" "fk_PoolsByAdmin (f_bumped env s) = fk_PoolsByAdmin s" "fk_PoolsByWasmHash (f_bumped env s) = fk_PoolsByWasmHash s"
  "fk_ApprovedWasmHash (f_bumped env s) = fk_ApprovedWasmHash s" "fk_PoolTvl (f_bumped env s) = fk_PoolTvl s" "f_events (f_bumped env s) = f_events s"
  "f_world (f_bumped env s) = f_world s"
  by (simp_all add: f_bumped_def)

lemma f_stored_fields [simp]:
  "fk_Admin (f_stored env k s t) = fk_Admin t" "fk_PoolCount (f_stored env k s t) = fk_PoolCount t" "fk_WasmHash (f_stored env k s t) = fk_WasmHash t"
  "fk_PoolCreationPaused (f_stored env k s t) = fk_PoolCreationPaused t" "fk_AdminTransferCount (f_stored env k s t) = fk_AdminTransferCount t" "fk_UpgradeCount (f_stored env k s t) = fk_UpgradeCount t"
  "fk_TotalTvl (f_stored env k s t) = fk_TotalTvl t" "fk_Pool (f_stored env k s t) = fk_Pool t" "fk_AssetPools (f_stored env k s t) = fk_AssetPools t"
  "fk_AssetPoolCount (f_stored env k s t) = fk_AssetPoolCount t" "fk_PoolsByAdmin (f_stored env k s t) = fk_PoolsByAdmin t" "fk_PoolsByWasmHash (f_stored env k s t) = fk_PoolsByWasmHash t"
  "fk_ApprovedWasmHash (f_stored env k s t) = fk_ApprovedWasmHash t" "fk_PoolTvl (f_stored env k s t) = fk_PoolTvl t" "f_events (f_stored env k s t) = f_events t"
  "f_world (f_stored env k s t) = f_world t"
  by (simp_all add: f_stored_def)

lemma core_update [simp]:
  "core (s\<lparr>fk_Admin := x0\<rparr>) = (core s)\<lparr>fk_Admin := x0\<rparr>"
  "core (s\<lparr>fk_PoolCount := x1\<rparr>) = (core s)\<lparr>fk_PoolCount := x1\<rparr>"
  "core (s\<lparr>fk_WasmHash := x2\<rparr>) = (core s)\<lparr>fk_WasmHash := x2\<rparr>"
  "core (s\<lparr>fk_PoolCreationPaused := x3\<rparr>) = (core s)\<lparr>fk_PoolCreationPaused := x3\<rparr>"
  "core (s\<lparr>fk_AdminTransferCount := x4\<rparr>) = (core s)\<lparr>fk_AdminTransferCount := x4\<rparr>"
  "core (s\<lparr>fk_UpgradeCount := x5\<rparr>) = (core s)\<lparr>fk_UpgradeCount := x5\<rparr>"
  "core (s\<lparr>fk_TotalTvl := x6\<rparr>) = (core s)\<lparr>fk_TotalTvl := x6\<rparr>"
  "core (s\<lparr>fk_Pool := x7\<rparr>) = (core s)\<lparr>fk_Pool := x7\<rparr>"
  "core (s\<lparr>fk_AssetPools := x8\<rparr>) = (core s)\<lparr>fk_AssetPools := x8\<rparr>"
  "core (s\<lparr>fk_AssetPoolCount := x9\<rparr>) = (core s)\<lparr>fk_AssetPoolCount := x9\<rparr>"
  "core (s\<lparr>fk_PoolsByAdmin := x10\<rparr>) = (core s)\<lparr>fk_PoolsByAdmin := x10\<rparr>"
  "core (s\<lparr>fk_PoolsByWasmHash := x11\<rparr>) = (core s)\<lparr>fk_PoolsByWasmHash := x11\<rparr>"
  "core (s\<lparr>fk_ApprovedWasmHash := x12\<rparr>) = (core s)\<lparr>fk_ApprovedWasmHash := x12\<rparr>"
  "core (s\<lparr>fk_PoolTvl := x13\<rparr>) = (core s)\<lparr>fk_PoolTvl := x13\<rparr>"
  "core (s\<lparr>f_events := x14\<rparr>) = (core s)\<lparr>f_events := x14\<rparr>"
  "core (s\<lparr>f_world := x15\<rparr>) = (core s)\<lparr>f_world := x15\<rparr>"
  by (simp_all add: core_def)

lemma core_ttl [simp]:
  "core (f_extended env k s) = core s" "core (f_bumped env s) = core s" "core (f_stored env k s t) = core t"
  by (simp_all add: core_def f_extended_def f_bumped_def f_stored_def)

lemma core_idem [simp]: "core (core s) = core s"
  by (simp add: core_def)

lemma f_has_fields [simp]:
  "f_has (core s) k = f_has s k" "f_has (f_extended env k' s) k = f_has s k"
  "f_has (f_bumped env s) k = f_has s k" "f_has (f_stored env k' s' s) k = f_has s k"
  by (cases k; simp)+

text \<open>The fields of a factory whose core is known.\<close>

lemma core_get:
  assumes "core t = u"
  shows "fk_Admin t = fk_Admin u"
    and "fk_PoolCount t = fk_PoolCount u"
    and "fk_WasmHash t = fk_WasmHash u"
    and "fk_PoolCreationPaused t = fk_PoolCreationPaused u"
    and "fk_AdminTransferCount t = fk_AdminTransferCount u"
    and "fk_UpgradeCount t = fk_UpgradeCount u"
    and "fk_TotalTvl t = fk_TotalTvl u"
    and "fk_Pool t = fk_Pool u"
    and "fk_AssetPools t = fk_AssetPools u"
    and "fk_AssetPoolCount t = fk_AssetPoolCount u"
    and "fk_PoolsByAdmin t = fk_PoolsByAdmin u"
    and "fk_PoolsByWasmHash t = fk_PoolsByWasmHash u"
    and "fk_ApprovedWasmHash t = fk_ApprovedWasmHash u"
    and "fk_PoolTvl t = fk_PoolTvl u"
    and "f_events t = f_events u"
    and "f_world t = f_world u"
  using assms by auto

subsection \<open>Closed forms of the helper functions\<close>

lemma f_put_run [run_simps]: "f_put env k wr s = Done () (f_stored env k s (wr s))"
  by (simp add: f_put_def f_stored_def run_simps)

lemma f_extend_run [run_simps]: "f_extend env k s = (if f_has s k then Done () (f_extended env k s) else Trap)"
  by (simp add: f_extend_def f_extended_def)

lemma f_publish_run [run_simps]: "f_publish ev s = Done () (s\<lparr>f_events := f_events s @ [ev]\<rparr>)"
  by (simp add: f_publish_def run_simps)

lemma f_bump_instance_run [run_simps]: "f_bump_instance env s = Done () (f_bumped env s)"
  by (simp add: f_bump_instance_def f_bumped_def run_simps)

lemma f_call_run [run_simps]: "f_call c s = Done (fst (c (f_world s))) (s\<lparr>f_world := snd (c (f_world s))\<rparr>)"
  by (simp add: f_call_def split: prod.split)

lemma f_invoke_run [run_simps]:
  "f_invoke c s = (case c (f_world s) of None \<Rightarrow> Trap | Some (x, w) \<Rightarrow> Done x (s\<lparr>f_world := w\<rparr>))"
  by (simp add: f_invoke_def)

lemma f_require_initialized_run [run_simps]:
  "f_require_initialized s = (if fk_Admin s = None then Fail NotInitialized s else Done () s)"
  by (simp add: f_require_initialized_def run_simps)

lemma f_reader_run [run_simps]:
  "read_upgrade_count s = Done (unwrap_or 0 (fk_UpgradeCount s)) s"
  "read_admin_transfer_count s = Done (unwrap_or 0 (fk_AdminTransferCount s)) s"
  "read_total_tvl s = Done (unwrap_or 0 (fk_TotalTvl s)) s"
  "read_pool_tvl i s = Done (unwrap_or 0 (fk_PoolTvl s i)) s"
  by (simp_all add: read_upgrade_count_def read_admin_transfer_count_def read_total_tvl_def
      read_pool_tvl_def run_simps)

lemma f_load_run [run_simps]:
  "fk_Admin s = Some a \<Longrightarrow> load_admin s = Done a s" "fk_Admin s = None \<Longrightarrow> load_admin s = Fail NotInitialized s"
  "fk_WasmHash s = Some h \<Longrightarrow> load_wasm_hash s = Done h s"
  "fk_WasmHash s = None \<Longrightarrow> load_wasm_hash s = Fail NotInitialized s"
  by (simp_all add: load_admin_def load_wasm_hash_def run_simps)

lemmas bump_defs = bump_pool_def bump_asset_pools_def bump_asset_pool_count_def bump_admin_pools_def
  bump_pool_tvl_def bump_wasm_pools_def

lemma f_prim_Done [run_iffs]:
  "f_put env k wr s = Done u t \<longleftrightarrow> t = f_stored env k s (wr s)"
  "f_extend env k s = Done u t \<longleftrightarrow> f_has s k \<and> t = f_extended env k s"
  "f_publish ev s = Done u t \<longleftrightarrow> t = s\<lparr>f_events := f_events s @ [ev]\<rparr>"
  "f_bump_instance env s = Done u t \<longleftrightarrow> t = f_bumped env s"
  "f_require_initialized s = Done u t \<longleftrightarrow> fk_Admin s \<noteq> None \<and> t = s"
  by (auto simp: run_simps)

lemma f_call_Done [run_iffs]:
  "f_call c s = Done x t \<longleftrightarrow> (\<exists>w. c (f_world s) = (x, w) \<and> t = s\<lparr>f_world := w\<rparr>)"
  by (cases "c (f_world s)") (auto simp: run_simps)

lemma f_invoke_Done [run_iffs]:
  "f_invoke c s = Done x t \<longleftrightarrow> (\<exists>w. c (f_world s) = Some (x, w) \<and> t = s\<lparr>f_world := w\<rparr>)"
  by (auto simp: run_simps split: option.splits)

lemma f_load_Done [run_iffs]:
  "load_admin s = Done a t \<longleftrightarrow> fk_Admin s = Some a \<and> t = s"
  "load_wasm_hash s = Done h t \<longleftrightarrow> fk_WasmHash s = Some h \<and> t = s"
  by (auto simp: load_admin_def load_wasm_hash_def run_iffs)

lemma f_reader_Done [run_iffs]:
  "read_upgrade_count s = Done n t \<longleftrightarrow> n = unwrap_or 0 (fk_UpgradeCount s) \<and> t = s"
  "read_admin_transfer_count s = Done n t \<longleftrightarrow> n = unwrap_or 0 (fk_AdminTransferCount s) \<and> t = s"
  "read_total_tvl s = Done x t \<longleftrightarrow> x = unwrap_or 0 (fk_TotalTvl s) \<and> t = s"
  "read_pool_tvl i s = Done x t \<longleftrightarrow> x = unwrap_or 0 (fk_PoolTvl s i) \<and> t = s"
  by (auto simp: run_simps)

subsection \<open>Rates and salts\<close>

text \<open>The ceiling of the daily rate over the ledgers of a day.\<close>

definition credit_rate_of :: "u128 \<Rightarrow> i128" where
  "credit_rate_of d = (uint d + 17279) div 17280"

lemma uint_u128_less: "uint (x :: u128) < 2 ^ 128"
  using uint_lt2p [of x] by simp

lemma uint_div_ceil: "uint (u128_div_ceil d LEDGERS_PER_DAY) = credit_rate_of d"
proof -
  have q: "uint (d div 17280) = uint d div 17280" and r: "uint (d mod 17280) = uint d mod 17280"
    by (simp_all add: uint_div uint_mod)
  have "uint d div 17280 + 1 < 2 ^ 128"
    using div_le_iff [of 17280 "uint d" "2 ^ 128 - 2"] uint_u128_less [of d] by simp
  moreover have "0 \<le> uint d div 17280" by (intro pos_imp_zdiv_nonneg_iff [THEN iffD2]) auto
  ultimately have "uint (d div 17280 + 1) = uint d div 17280 + 1"
    using q by (simp add: uint_word_ariths mod_pos_pos_trivial)
  moreover have "0 < d mod 17280 \<longleftrightarrow> 0 < uint d mod 17280"
    by (simp add: word_less_def r)
  ultimately show ?thesis
    using div_ceil [of 17280 "uint d"] q
    by (simp add: u128_div_ceil_def LEDGERS_PER_DAY_def credit_rate_of_def add.commute)
qed

lemma credit_rate_bounds: "d \<noteq> 0 \<Longrightarrow> 0 < credit_rate_of d" "in_i128 (credit_rate_of d)"
proof -
  have "credit_rate_of d \<le> i128_max"
    using div_le_iff [of 17280 "uint d + 17279" i128_max] uint_u128_less [of d] by (simp add: credit_rate_of_def)
  moreover have "0 \<le> credit_rate_of d"
    unfolding credit_rate_of_def by (intro pos_imp_zdiv_nonneg_iff [THEN iffD2]) auto
  ultimately show "in_i128 (credit_rate_of d)" unfolding in_i128_def by linarith
  assume "d \<noteq> 0"
  then have "0 < uint d"
    by (simp add: word_neq_0_conv word_less_def)
  then show "0 < credit_rate_of d"
    using div_le_iff [of 17280 "uint d + 17279" 0] unfolding credit_rate_of_def by linarith
qed

lemma daily_rate_run [run_simps]:
  "daily_rate_to_credit_rate d s =
     (if d = 0 \<or> MAX_CREDIT_RATE < credit_rate_of d then Fail InvalidCreditRate s
      else Done (credit_rate_of d) s)"
  using credit_rate_bounds(2) [of d]
  by (simp add: daily_rate_to_credit_rate_def run_simps Let_def i128_try_from_def uint_div_ceil)

lemma daily_rate_Done [run_iffs]:
  "daily_rate_to_credit_rate d s = Done x t \<longleftrightarrow>
     d \<noteq> 0 \<and> credit_rate_of d \<le> MAX_CREDIT_RATE \<and> x = credit_rate_of d \<and> t = s"
  by (auto simp: run_simps)

lemma max_daily_rate: "d \<le> MAX_DAILY_RATE \<longleftrightarrow> credit_rate_of d \<le> MAX_CREDIT_RATE"
  using div_le_iff [of 17280 "uint d + 17279" 100000000]
  by (simp add: MAX_DAILY_RATE_def MAX_CREDIT_RATE_def LEDGERS_PER_DAY_def credit_rate_of_def word_le_def)
    linarith

lemma u32_to_be_bytes_inject:
  assumes "u32_to_be_bytes x = u32_to_be_bytes y"
  shows "x = y"
proof (rule bit_word_eqI)
  fix n
  assume n: "n < LENGTH(32)"
  from assms have eq: "ucast (drop_bit (8 * k) x) = (ucast (drop_bit (8 * k) y) :: 8 word)" if "k < 4" for k
    using that by (auto simp: u32_to_be_bytes_def less_Suc_eq numeral_eq_Suc)
  have "bit (ucast (drop_bit (8 * (n div 8)) x) :: 8 word) (n mod 8) =
      bit (ucast (drop_bit (8 * (n div 8)) y) :: 8 word) (n mod 8)"
    using n by (subst eq) auto
  then show "bit x n = bit y n"
    by (simp add: bit_simps)
qed

lemma pool_salt_inject: "pool_salt i = pool_salt j \<Longrightarrow> i = j"
  by (auto simp: pool_salt_def dest: u32_to_be_bytes_inject)

lemma length_pool_salt: "length (pool_salt i) = 32"
  by (simp add: pool_salt_def u32_to_be_bytes_def)

subsection \<open>Creating a pool\<close>

definition pool_params_valid :: "address \<Rightarrow> address \<Rightarrow> address \<Rightarrow> u128 \<Rightarrow> u32 \<Rightarrow> u64 \<Rightarrow> i128 \<Rightarrow> bool" where
  "pool_params_valid self admin asset daily gm mlp ms \<longleftrightarrow>
     asset \<noteq> zero_address \<and> asset \<noteq> self \<and> asset \<noteq> admin \<and>
     1 \<le> unat gm \<and> unat gm \<le> 1000 \<and> 0 < uint daily \<and> uint daily \<le> 1728000000000 \<and>
     1 \<le> unat mlp \<and> unat mlp \<le> 63072000 \<and>
     (- (10 ^ 18) \<le> ms \<and> ms \<le> 0 \<or> 1000000 \<le> ms \<and> ms \<le> 10 ^ 18)"

definition effective_stake :: "i128 \<Rightarrow> i128" where
  "effective_stake ms = (if ms \<le> 0 then MIN_STAKE_AMOUNT else ms)"

definition new_record :: "address \<Rightarrow> address \<Rightarrow> u128 \<Rightarrow> u32 \<Rightarrow> u64 \<Rightarrow> bytes \<Rightarrow> PoolRecord" where
  "new_record addr asset daily gm mlp hash =
     \<lparr>pr_address = addr, pr_asset = asset, pr_credit_rate = credit_rate_of daily,
      pr_global_multiplier = gm, pr_min_lock_period = ucast mlp, pr_daily_rate = daily,
      pr_wasm_hash = hash\<rparr>"

definition new_init_args :: "address \<Rightarrow> address \<Rightarrow> u128 \<Rightarrow> u32 \<Rightarrow> u64 \<Rightarrow> i128 \<Rightarrow> pool_init_args" where
  "new_init_args admin asset daily gm mlp ms =
     \<lparr>ia_admin = admin, ia_asset = asset, ia_global_multiplier = gm,
      ia_credit_rate = credit_rate_of daily, ia_min_lock_period = ucast mlp,
      ia_min_stake_amount = effective_stake ms\<rparr>"

text \<open>The factory after pool \<open>i\<close> with record \<open>r\<close> was registered, the calls having left the world \<open>w\<close>.\<close>

definition pool_added ::
  "address \<Rightarrow> i128 \<Rightarrow> u32 \<Rightarrow> u32 \<Rightarrow> u32 \<Rightarrow> PoolRecord \<Rightarrow> 'w \<Rightarrow> 'w factory \<Rightarrow> 'w factory" where
  "pool_added admin stake i n c r w s = s\<lparr>fk_PoolCount := Some n,
     fk_Pool := (fk_Pool s)(i \<mapsto> r), fk_PoolTvl := (fk_PoolTvl s)(i \<mapsto> 0),
     fk_AssetPools := (fk_AssetPools s)(pr_asset r \<mapsto> unwrap_or [] (fk_AssetPools s (pr_asset r)) @ [i]),
     fk_AssetPoolCount := (fk_AssetPoolCount s)(pr_asset r \<mapsto> c),
     fk_PoolsByAdmin := (fk_PoolsByAdmin s)(admin \<mapsto> unwrap_or [] (fk_PoolsByAdmin s admin) @ [i]),
     f_world := w,
     f_events := f_events s @ [PoolCrtd i (pr_address r) admin (pr_asset r) (pr_credit_rate r)
       (pr_global_multiplier r) (pr_min_lock_period r) (pr_daily_rate r) (pr_wasm_hash r) stake]\<rparr>"

lemma validate_asset_Done [run_iffs]:
  "validate_asset env asset s = Done u t \<longleftrightarrow>
     (\<exists>w1 w2 b. try_symbol (host env) (f_world s) asset = (True, w1) \<and>
       try_balance (host env) w1 asset (current_contract env) = (Some b, w2) \<and> t = s\<lparr>f_world := w2\<rparr>)"
  by (auto simp: validate_asset_def run_iffs)

lemma u32_try_into_Some: "u32_try_into x = Some y \<longleftrightarrow> unat x < 4294967296 \<and> y = ucast x"
  by (auto simp: u32_try_into_def)

lemma pool_params_validI:
  assumes "asset \<noteq> zero_address" "asset \<noteq> self" "asset \<noteq> admin" "\<not> gm < 1" "gm \<le> MAX_GLOBAL_MULTIPLIER"
    "daily \<le> MAX_DAILY_RATE" "daily \<noteq> 0" "mlp \<noteq> 0" "unat mlp < 4294967296"
    "ucast mlp \<le> MAX_MIN_LOCK_PERIOD" "ms \<le> MAX_STAKE_AMOUNT" "- MAX_STAKE_AMOUNT \<le> ms"
    "0 < ms \<Longrightarrow> MIN_STAKE_AMOUNT \<le> ms"
  shows "pool_params_valid self admin asset daily gm mlp ms"
proof -
  have "unat (ucast mlp :: u32) = unat mlp"
    using assms(9) by (simp add: unsigned_ucast_eq take_bit_nat_eq_self)
  then have "unat mlp \<le> 63072000"
    using assms(10) by (simp add: MAX_MIN_LOCK_PERIOD_def word_le_nat_alt)
  moreover have "1 \<le> unat mlp" "1 \<le> unat gm"
    using assms(4,8) by (simp_all add: Suc_le_eq word_less_nat_alt unat_gt_0)
  moreover have "0 < uint daily"
    using assms(7) by (simp add: word_neq_0_conv word_less_def)
  moreover have "uint daily \<le> 1728000000000"
    using assms(6) by (simp add: MAX_DAILY_RATE_def MAX_CREDIT_RATE_def LEDGERS_PER_DAY_def word_le_def)
  moreover have "unat gm \<le> 1000"
    using assms(5) by (simp add: MAX_GLOBAL_MULTIPLIER_def word_le_nat_alt)
  moreover have "- (10 ^ 18) \<le> ms \<and> ms \<le> 0 \<or> 1000000 \<le> ms \<and> ms \<le> 10 ^ 18"
    using assms(11-13) unfolding MAX_STAKE_AMOUNT_def MIN_STAKE_AMOUNT_def by linarith
  ultimately show ?thesis
    using assms(1-3) unfolding pool_params_valid_def by blast
qed

lemma create_pool_inner_Done:
  assumes "create_pool_inner env admin asset daily gm mlp ms s = Done i t"
  obtains w1 w2 w3 w4 b n c hash addr where
    "\<not> unwrap_or False (fk_PoolCreationPaused s)"
    "try_symbol (host env) (f_world s) asset = (True, w1)"
    "try_balance (host env) w1 asset (current_contract env) = (Some b, w2)"
    "pool_params_valid (current_contract env) admin asset daily gm mlp ms"
    "fk_PoolCount s = Some i" "u32_checked_add i 1 = Some n" "fk_WasmHash s = Some hash"
    "deploy_v2 (host env) w2 (current_contract env) (pool_salt i) hash = Some (addr, w3)"
    "pool_initialize (host env) w3 addr (new_init_args admin asset daily gm mlp ms) = Some w4"
    "u32_checked_add (unwrap_or (u32_saturating_sub (vec_len (unwrap_or [] (fk_AssetPools s asset) @ [i])) 1)
       (fk_AssetPoolCount s asset)) 1 = Some c"
    "core t = pool_added admin (effective_stake ms) i n c (new_record addr asset daily gm mlp hash) w4 (core s)"
  using assms
  apply (auto simp: create_pool_inner_def run_iffs Let_def bump_defs u32_try_into_Some not_less)
  apply (rule that, assumption+)
     apply (rule pool_params_validI; simp split: if_splits)
    apply (assumption+, simp add: new_init_args_def effective_stake_def, assumption)
  apply (simp add: pool_added_def new_record_def effective_stake_def)
  done

lemma pool_params_validD:
  assumes "pool_params_valid self admin asset daily gm mlp ms"
  shows "asset \<noteq> zero_address" "asset \<noteq> self" "asset \<noteq> admin" "\<not> gm < 1" "gm \<le> MAX_GLOBAL_MULTIPLIER"
    "daily \<le> MAX_DAILY_RATE" "daily \<noteq> 0" "mlp \<noteq> 0" "u32_try_into mlp = Some (ucast mlp)"
    "\<not> (ucast mlp :: u32) < MIN_LOCK_PERIOD"
    "(ucast mlp :: u32) \<le> MAX_MIN_LOCK_PERIOD" "ms \<le> MAX_STAKE_AMOUNT" "- MAX_STAKE_AMOUNT \<le> ms"
    "MIN_STAKE_AMOUNT \<le> effective_stake ms" "effective_stake ms \<le> MAX_STAKE_AMOUNT"
proof -
  from assms have m: "1 \<le> unat mlp" "unat mlp \<le> 63072000" by (auto simp: pool_params_valid_def)
  then have "unat (ucast mlp :: u32) = unat mlp"
    by (simp add: unsigned_ucast_eq take_bit_nat_eq_self)
  with m show "\<not> (ucast mlp :: u32) < MIN_LOCK_PERIOD" "(ucast mlp :: u32) \<le> MAX_MIN_LOCK_PERIOD"
    by (simp_all add: MIN_LOCK_PERIOD_def MAX_MIN_LOCK_PERIOD_def word_le_nat_alt word_less_nat_alt)
  from m show "mlp \<noteq> 0" "u32_try_into mlp = Some (ucast mlp)" by (auto simp: u32_try_into_def)
  show "\<not> gm < 1" "gm \<le> MAX_GLOBAL_MULTIPLIER"
    using assms by (auto simp: pool_params_valid_def MAX_GLOBAL_MULTIPLIER_def word_le_nat_alt)
  show "daily \<le> MAX_DAILY_RATE" "daily \<noteq> 0"
    using assms by (auto simp: pool_params_valid_def MAX_DAILY_RATE_def MAX_CREDIT_RATE_def LEDGERS_PER_DAY_def word_le_def)
qed (use assms in \<open>auto simp: pool_params_valid_def MAX_STAKE_AMOUNT_def MIN_STAKE_AMOUNT_def effective_stake_def\<close>)

text \<open>Conversely, when every guard, probe and call succeeds, the creation returns.\<close>

lemma create_pool_inner_returns:
  assumes "\<not> unwrap_or False (fk_PoolCreationPaused s)"
    "try_symbol (host env) (f_world s) asset = (True, w1)"
    "try_balance (host env) w1 asset (current_contract env) = (Some b, w2)"
    "pool_params_valid (current_contract env) admin asset daily gm mlp ms"
    "fk_PoolCount s = Some i" "u32_checked_add i 1 = Some n" "fk_WasmHash s = Some hash"
    "deploy_v2 (host env) w2 (current_contract env) (pool_salt i) hash = Some (addr, w3)"
    "pool_initialize (host env) w3 addr (new_init_args admin asset daily gm mlp ms) = Some w4"
    "u32_checked_add (unwrap_or (u32_saturating_sub (vec_len (unwrap_or [] (fk_AssetPools s asset) @ [i])) 1)
       (fk_AssetPoolCount s asset)) 1 = Some c"
  shows "\<exists>t. create_pool_inner env admin asset daily gm mlp ms s = Done i t"
proof -
  note p = pool_params_validD [OF assms(4)]
  have rate: "credit_rate_of daily \<le> MAX_CREDIT_RATE" "0 < credit_rate_of daily"
    using p(6,7) max_daily_rate credit_rate_bounds(1) by auto
  note init = assms(9) [unfolded new_init_args_def effective_stake_def]
  note stake = p(14,15) [unfolded effective_stake_def]
  show ?thesis
    using assms(1-3,5-8,10) p rate init stake leD [OF p(5)] leD [OF p(6)] leD [OF p(11)]
    by (simp add: create_pool_inner_def validate_asset_def run_simps Let_def bump_defs)
qed

subsection \<open>The registry invariant\<close>

definition record_ok :: "PoolRecord \<Rightarrow> bool" where
  "record_ok r \<longleftrightarrow> pr_asset r \<noteq> zero_address \<and> pr_wasm_hash r \<noteq> zero_hash \<and>
     pr_credit_rate r = credit_rate_of (pr_daily_rate r) \<and>
     0 < pr_credit_rate r \<and> pr_credit_rate r \<le> MAX_CREDIT_RATE \<and>
     1 \<le> pr_global_multiplier r \<and> pr_global_multiplier r \<le> MAX_GLOBAL_MULTIPLIER \<and>
     MIN_LOCK_PERIOD \<le> pr_min_lock_period r \<and> pr_min_lock_period r \<le> MAX_MIN_LOCK_PERIOD"

definition asset_ids :: "'w factory \<Rightarrow> u32 \<Rightarrow> address \<Rightarrow> u32 list" where
  "asset_ids s n a = filter (\<lambda>i. pr_asset (the (fk_Pool s i)) = a) (u32_range 0 n)"

definition registry_ok :: "'w factory \<Rightarrow> u32 \<Rightarrow> bool" where
  "registry_ok s n \<longleftrightarrow>
     (\<forall>i. fk_Pool s i \<noteq> None \<longleftrightarrow> i < n) \<and> (\<forall>i. fk_PoolTvl s i \<noteq> None \<longleftrightarrow> i < n) \<and>
     (\<forall>i r. fk_Pool s i = Some r \<longrightarrow> record_ok r)"

definition indexes_ok :: "'w factory \<Rightarrow> u32 \<Rightarrow> bool" where
  "indexes_ok s n \<longleftrightarrow>
     (\<forall>a. fk_AssetPools s a = (if asset_ids s n a = [] then None else Some (asset_ids s n a))) \<and>
     (\<forall>a. fk_AssetPoolCount s a = map_option vec_len (fk_AssetPools s a))"

definition admins_ok :: "'w factory \<Rightarrow> u32 \<Rightarrow> bool" where
  "admins_ok s n \<longleftrightarrow>
     (\<forall>a ids. fk_PoolsByAdmin s a = Some ids \<longrightarrow> sorted_wrt (<) ids \<and> (\<forall>i \<in> set ids. i < n)) \<and>
     (\<forall>i < n. \<exists>!a. i \<in> set (unwrap_or [] (fk_PoolsByAdmin s a)))"

definition wasm_index_ok :: "'w factory \<Rightarrow> bool" where
  "wasm_index_ok s \<longleftrightarrow> (\<forall>h ids. fk_PoolsByWasmHash s h = Some ids \<longrightarrow>
     distinct ids \<and> (\<forall>i \<in> set ids. \<exists>r. fk_Pool s i = Some r \<and> pr_wasm_hash r = h))"

definition factory_ok :: "'w factory \<Rightarrow> bool" where
  "factory_ok s \<longleftrightarrow> (\<exists>a h n. fk_Admin s = Some a \<and> a \<noteq> zero_address \<and> fk_WasmHash s = Some h \<and>
     h \<noteq> zero_hash \<and> fk_ApprovedWasmHash s h = Some True \<and> fk_PoolCount s = Some n \<and>
     registry_ok s n \<and> indexes_ok s n \<and> admins_ok s n \<and> wasm_index_ok s)"

lemma u32_range_Suc: "u32_checked_add n 1 = Some m \<Longrightarrow> u32_range 0 m = u32_range 0 n @ [n]"
  by (drule u32_checked_add_1_Some) (auto simp: u32_range_def)

lemma u32_less_Suc: "u32_checked_add n 1 = Some m \<Longrightarrow> i < m \<longleftrightarrow> i < n \<or> i = n"
  by (drule u32_checked_add_1_Some) (auto simp: word_less_nat_alt less_Suc_eq word_unat_eq_iff)

lemma vec_len_snoc:
  assumes "Suc (length xs) < 4294967296"
  shows "u32_saturating_sub (vec_len (xs @ [x])) 1 = vec_len xs"
    and "u32_checked_add (vec_len xs) 1 = Some (vec_len (xs @ [x]))"
proof -
  have unat: "unat (vec_len ys) = length ys" if "length ys < 4294967296" for ys :: "'a list"
    using that by (simp add: vec_len_def unat_of_nat)
  have "vec_len (xs @ [x]) = vec_len xs + 1"
    by (simp add: vec_len_def)
  moreover have "1 \<le> vec_len (xs @ [x])"
    using unat [of "xs @ [x]"] assms by (simp add: word_le_nat_alt)
  ultimately show "u32_saturating_sub (vec_len (xs @ [x])) 1 = vec_len xs"
    by (simp add: u32_saturating_sub_def)
  show "u32_checked_add (vec_len xs) 1 = Some (vec_len (xs @ [x]))"
    using unat [of xs] assms by (simp add: u32_checked_add_def vec_len_def)
qed

lemma asset_ids_added:
  assumes "registry_ok s i" and "u32_checked_add i 1 = Some n"
  shows "asset_ids (pool_added adm st i n c r w s) n a =
    asset_ids s i a @ (if pr_asset r = a then [i] else [])"
proof -
  have "filter (\<lambda>j. pr_asset (the (((fk_Pool s)(i \<mapsto> r)) j)) = a) (u32_range 0 i) =
      filter (\<lambda>j. pr_asset (the (fk_Pool s j)) = a) (u32_range 0 i)"
    by (rule filter_cong) auto
  then show ?thesis
    by (simp add: asset_ids_def pool_added_def u32_range_Suc [OF assms(2)])
qed

lemma length_asset_ids: "length (asset_ids s n a) \<le> unat n"
  unfolding asset_ids_def by (rule order_trans [OF length_filter_le]) simp

lemma pool_added_count:
  assumes "registry_ok s i" and "indexes_ok s i" and "u32_checked_add i 1 = Some n"
  shows "u32_checked_add (unwrap_or (u32_saturating_sub (vec_len (unwrap_or [] (fk_AssetPools s a) @ [i])) 1)
       (fk_AssetPoolCount s a)) 1 = Some (vec_len (asset_ids s i a @ [i]))"
proof -
  have "unat n = Suc (unat i)" "unat n < 4294967296"
    using u32_checked_add_1_Some [OF assms(3)] unat_u32_less [of n] by auto
  then have "Suc (length (asset_ids s i a)) < 4294967296"
    using length_asset_ids [of s i a] by simp
  note len = vec_len_snoc [OF this, of i]
  from assms(2) show ?thesis
    using len by (auto simp: indexes_ok_def)
qed

lemma pool_added_registry:
  assumes "registry_ok s i" and "u32_checked_add i 1 = Some n" and "record_ok r"
  shows "registry_ok (pool_added adm st i n c r w s) n"
  using assms u32_less_Suc [OF assms(2)] by (auto simp: registry_ok_def pool_added_def)

lemma pool_added_indexes:
  assumes "registry_ok s i" and "indexes_ok s i" and "u32_checked_add i 1 = Some n"
    and "c = vec_len (asset_ids s i (pr_asset r) @ [i])"
  shows "indexes_ok (pool_added adm st i n c r w s) n"
  unfolding indexes_ok_def asset_ids_added [OF assms(1,3)]
  using assms(2,4) by (auto simp: indexes_ok_def pool_added_def)

lemma pool_added_admins:
  assumes "admins_ok s i" and "u32_checked_add i 1 = Some n"
  shows "admins_ok (pool_added adm st i n c r w s) n"
proof -
  note less = u32_less_Suc [OF assms(2)]
  have fresh: "i \<notin> set (unwrap_or [] (fk_PoolsByAdmin s a))" for a
    using assms(1) by (cases "fk_PoolsByAdmin s a") (auto simp: admins_ok_def)
  have "sorted_wrt (<) (unwrap_or [] (fk_PoolsByAdmin s a) @ [i])" for a
    using assms(1) by (cases "fk_PoolsByAdmin s a") (auto simp: admins_ok_def sorted_wrt_append)
  moreover have "j < n" if "j \<in> set (unwrap_or [] (fk_PoolsByAdmin s a))" for j a
    using that assms(1) less by (cases "fk_PoolsByAdmin s a") (auto simp: admins_ok_def)
  moreover have "\<exists>!a. j \<in> set (unwrap_or [] (((fk_PoolsByAdmin s)(adm \<mapsto>
      unwrap_or [] (fk_PoolsByAdmin s adm) @ [i])) a))" if "j < n" for j
  proof (cases "j = i")
    case True
    then show ?thesis using fresh by (auto split: if_splits)
  next
    case False
    with that less have "j < i" by simp
    with assms(1) have "\<exists>!a. j \<in> set (unwrap_or [] (fk_PoolsByAdmin s a))" by (simp add: admins_ok_def)
    then show ?thesis using False by (auto split: if_splits)
  qed
  moreover have "sorted_wrt (<) ids \<and> (\<forall>j \<in> set ids. j < n)" if "fk_PoolsByAdmin s a = Some ids" for a ids
    using that assms(1) less by (auto simp: admins_ok_def)
  ultimately show ?thesis
    using less by (auto simp: admins_ok_def pool_added_def)
qed

lemma pool_added_wasm:
  assumes "registry_ok s i" and "wasm_index_ok s"
  shows "wasm_index_ok (pool_added adm st i n c r w s)"
proof -
  have "fk_Pool s i = None" using assms(1) by (auto simp: registry_ok_def)
  with assms(2) show ?thesis by (fastforce simp: wasm_index_ok_def pool_added_def)
qed

lemmas factory_inv_defs = registry_ok_def indexes_ok_def asset_ids_def admins_ok_def wasm_index_ok_def

lemma factory_ok_core: "factory_ok (core s) = factory_ok s"
  by (simp add: factory_ok_def factory_inv_defs)

lemma factory_ok_core_eq: "core t = core s \<Longrightarrow> factory_ok t = factory_ok s"
  by (metis factory_ok_core)

lemma factory_ok_frame [simp]:
  "factory_ok (s\<lparr>f_world := w\<rparr>) = factory_ok s" "factory_ok (s\<lparr>f_events := es\<rparr>) = factory_ok s"
  "factory_ok (s\<lparr>fk_PoolCreationPaused := p\<rparr>) = factory_ok s"
  "factory_ok (s\<lparr>fk_AdminTransferCount := c\<rparr>) = factory_ok s"
  "factory_ok (s\<lparr>fk_UpgradeCount := c\<rparr>) = factory_ok s"
  "factory_ok (s\<lparr>fk_TotalTvl := v\<rparr>) = factory_ok s"
  by (simp_all add: factory_ok_def factory_inv_defs)

lemma new_record_ok:
  assumes "pool_params_valid self admin asset daily gm mlp ms" and "hash \<noteq> zero_hash"
  shows "record_ok (new_record addr asset daily gm mlp hash)"
proof -
  have "unat mlp < 4294967296" "daily \<noteq> 0" and le: "daily \<le> MAX_DAILY_RATE"
    using assms(1) by (auto simp: pool_params_valid_def MAX_DAILY_RATE_def MAX_CREDIT_RATE_def
        LEDGERS_PER_DAY_def word_le_def)
  moreover from this have "unat (ucast mlp :: u32) = unat mlp"
    by (simp add: unsigned_ucast_eq take_bit_nat_eq_self)
  ultimately show ?thesis
    using assms credit_rate_bounds(1) [of daily] le [unfolded max_daily_rate]
    by (simp add: record_ok_def new_record_def pool_params_valid_def word_le_nat_alt
        MAX_GLOBAL_MULTIPLIER_def MIN_LOCK_PERIOD_def MAX_MIN_LOCK_PERIOD_def)
qed

lemma pool_added_ok:
  assumes "factory_ok s" and "fk_PoolCount s = Some i" and "u32_checked_add i 1 = Some n" and "record_ok r"
    and "c = vec_len (asset_ids s i (pr_asset r) @ [i])"
  shows "factory_ok (pool_added adm st i n c r w s)"
proof -
  from assms(1,2) have "registry_ok s i" "indexes_ok s i" "admins_ok s i" "wasm_index_ok s"
    by (auto simp: factory_ok_def)
  then have "registry_ok (pool_added adm st i n c r w s) n" "indexes_ok (pool_added adm st i n c r w s) n"
    "admins_ok (pool_added adm st i n c r w s) n" "wasm_index_ok (pool_added adm st i n c r w s)"
    using assms(3-5) by (simp_all add: pool_added_registry pool_added_indexes pool_added_admins pool_added_wasm)
  moreover have "fk_Admin (pool_added adm st i n c r w s) = fk_Admin s"
    "fk_WasmHash (pool_added adm st i n c r w s) = fk_WasmHash s"
    "fk_ApprovedWasmHash (pool_added adm st i n c r w s) = fk_ApprovedWasmHash s"
    "fk_PoolCount (pool_added adm st i n c r w s) = Some n"
    by (simp_all add: pool_added_def)
  ultimately show ?thesis
    using assms(1) by (auto simp: factory_ok_def)
qed

text \<open>
  What a successful creation does to a well-formed factory: the probes, the deployment under the
  salt of the new ID and the initialization succeed in this order, and the registry grows by the
  record that mirrors the arguments of the initialization.
\<close>

lemma create_pool_inner_ok:
  assumes "factory_ok s" and "create_pool_inner env admin asset daily gm mlp ms s = Done i t"
  obtains n hash addr w4 where
    "pool_params_valid (current_contract env) admin asset daily gm mlp ms"
    "\<not> unwrap_or False (fk_PoolCreationPaused s)"
    "fk_PoolCount s = Some i" "u32_checked_add i 1 = Some n" "fk_WasmHash s = Some hash"
    "\<exists>w2 w3. deploy_v2 (host env) w2 (current_contract env) (pool_salt i) hash = Some (addr, w3) \<and>
       pool_initialize (host env) w3 addr (new_init_args admin asset daily gm mlp ms) = Some w4"
    "record_ok (new_record addr asset daily gm mlp hash)"
    "core t = pool_added admin (effective_stake ms) i n (vec_len (asset_ids s i asset @ [i]))
       (new_record addr asset daily gm mlp hash) w4 (core s)"
    "factory_ok t"
  using assms(2)
proof (rule create_pool_inner_Done)
  fix w1 w2 w3 w4 b n c hash addr
  let ?r = "new_record addr asset daily gm mlp hash"
  assume g: "\<not> unwrap_or False (fk_PoolCreationPaused s)"
    "pool_params_valid (current_contract env) admin asset daily gm mlp ms"
    "fk_PoolCount s = Some i" "u32_checked_add i 1 = Some n" "fk_WasmHash s = Some hash"
    and d: "deploy_v2 (host env) w2 (current_contract env) (pool_salt i) hash = Some (addr, w3)"
    "pool_initialize (host env) w3 addr (new_init_args admin asset daily gm mlp ms) = Some w4"
    and c: "u32_checked_add (unwrap_or (u32_saturating_sub (vec_len (unwrap_or [] (fk_AssetPools s asset) @ [i])) 1)
       (fk_AssetPoolCount s asset)) 1 = Some c"
    and t: "core t = pool_added admin (effective_stake ms) i n c ?r w4 (core s)"
  from assms(1) g(3,5) have inv: "registry_ok s i" "indexes_ok s i" and "hash \<noteq> zero_hash"
    by (auto simp: factory_ok_def)
  then have rec: "record_ok ?r" by (intro new_record_ok [OF g(2)])
  from c pool_added_count [OF inv g(4), of asset] have c': "c = vec_len (asset_ids s i asset @ [i])" by simp
  moreover have "asset_ids (core s) i asset = asset_ids s i asset" by (simp add: asset_ids_def)
  moreover have "pr_asset ?r = asset" by (simp add: new_record_def)
  ultimately have "factory_ok (pool_added admin (effective_stake ms) i n c ?r w4 (core s))"
    using assms(1) g(3,4) rec by (intro pool_added_ok) (simp_all add: factory_ok_core)
  with t have "factory_ok t" by (metis factory_ok_core)
  with g d rec t c' show thesis by (intro that) blast+
qed

subsection \<open>Upgrading a pool\<close>

definition without_id :: "u32 \<Rightarrow> bytes \<Rightarrow> (bytes \<Rightarrow> u32 list option) \<Rightarrow> (bytes \<Rightarrow> u32 list option)" where
  "without_id i h m = (case m h of None \<Rightarrow> m | Some ids \<Rightarrow> m(h \<mapsto> filter (\<lambda>j. j \<noteq> i) ids))"

definition pool_upgraded :: "u32 \<Rightarrow> PoolRecord \<Rightarrow> bytes \<Rightarrow> 'w \<Rightarrow> 'w factory \<Rightarrow> 'w factory" where
  "pool_upgraded i r hash w s =
     (let m = without_id i (pr_wasm_hash r) (fk_PoolsByWasmHash s)
      in s\<lparr>fk_Pool := (fk_Pool s)(i \<mapsto> r\<lparr>pr_wasm_hash := hash\<rparr>),
        fk_PoolsByWasmHash := m(hash \<mapsto> unwrap_or [] (m hash) @ [i]),
        fk_UpgradeCount := Some (u32_saturating_add (unwrap_or 0 (fk_UpgradeCount s)) 1), f_world := w,
        f_events := f_events s @ [PoolUpg i (pr_address r) (pr_wasm_hash r) hash]\<rparr>)"

lemma upgrade_pool_inner_Done:
  assumes "upgrade_pool_inner env admin i hash s = Done u t"
  obtains r w1 w2 where "fk_Pool s i = Some r"
    "try_pool_admin (host env) (f_world s) (pr_address r) = (Some admin, w1)"
    "hash \<noteq> pr_wasm_hash r" "hash \<noteq> zero_hash"
    "try_upgrade (host env) w1 (pr_address r) hash = (True, w2)"
    "core t = pool_upgraded i r hash w2 (core s)"
  using assms
  apply (auto simp: upgrade_pool_inner_def run_iffs Let_def bump_defs)
   apply (rule that, assumption+, simp add: pool_upgraded_def without_id_def Let_def)+
  done

lemma without_id_simps:
  "h \<noteq> h' \<Longrightarrow> without_id i h m h' = m h'"
  "without_id i h m h = map_option (filter (\<lambda>j. j \<noteq> i)) (m h)"
  by (auto simp: without_id_def split: option.split)

lemma pool_upgraded_wasm:
  assumes "wasm_index_ok s" and "fk_Pool s i = Some r" and "hash \<noteq> pr_wasm_hash r"
  shows "wasm_index_ok (pool_upgraded i r hash w s)"
  unfolding wasm_index_ok_def
proof (intro allI impI)
  fix h ids
  assume ids: "fk_PoolsByWasmHash (pool_upgraded i r hash w s) h = Some ids"
  have old: "distinct js \<and> (\<forall>j \<in> set js. \<exists>q. fk_Pool s j = Some q \<and> pr_wasm_hash q = g)"
    if "fk_PoolsByWasmHash s g = Some js" for g js
    using that assms(1) by (simp add: wasm_index_ok_def)
  have pools: "fk_Pool (pool_upgraded i r hash w s) = (fk_Pool s)(i \<mapsto> r\<lparr>pr_wasm_hash := hash\<rparr>)"
    by (simp add: pool_upgraded_def Let_def)
  consider "h = hash" "ids = unwrap_or [] (fk_PoolsByWasmHash s hash) @ [i]"
    | js where "h \<noteq> hash" "h = pr_wasm_hash r" "fk_PoolsByWasmHash s h = Some js" "ids = filter (\<lambda>j. j \<noteq> i) js"
    | "h \<noteq> hash" "h \<noteq> pr_wasm_hash r" "fk_PoolsByWasmHash s h = Some ids"
    using ids assms(3)
    by (cases "h = hash"; cases "h = pr_wasm_hash r")
      (auto simp: pool_upgraded_def Let_def without_id_simps)
  then show "distinct ids \<and> (\<forall>j \<in> set ids. \<exists>q. fk_Pool (pool_upgraded i r hash w s) j = Some q \<and> pr_wasm_hash q = h)"
  proof cases
    case 1
    have "i \<notin> set (unwrap_or [] (fk_PoolsByWasmHash s hash))"
      using old [of hash] assms(2,3) by (cases "fk_PoolsByWasmHash s hash") auto
    with 1 old [of hash] show ?thesis
      by (cases "fk_PoolsByWasmHash s hash") (auto simp: pools)
  next
    case (2 js)
    with old [of h js] show ?thesis by (auto simp: pools)
  next
    case 3
    with old [of h ids] assms(2) show ?thesis by (auto simp: pools)
  qed
qed

lemma pool_upgraded_ok:
  assumes "factory_ok s" and "fk_Pool s i = Some r" and "hash \<noteq> pr_wasm_hash r" and "hash \<noteq> zero_hash"
  shows "factory_ok (pool_upgraded i r hash w s)"
proof -
  let ?t = "pool_upgraded i r hash w s"
  from assms(1) obtain n where n: "fk_PoolCount s = Some n" "registry_ok s n" "indexes_ok s n"
    "admins_ok s n" "wasm_index_ok s" by (auto simp: factory_ok_def)
  have same: "fk_Admin ?t = fk_Admin s" "fk_WasmHash ?t = fk_WasmHash s" "fk_PoolCount ?t = fk_PoolCount s"
    "fk_ApprovedWasmHash ?t = fk_ApprovedWasmHash s" "fk_PoolTvl ?t = fk_PoolTvl s"
    "fk_AssetPools ?t = fk_AssetPools s" "fk_AssetPoolCount ?t = fk_AssetPoolCount s"
    "fk_PoolsByAdmin ?t = fk_PoolsByAdmin s" "fk_Pool ?t = (fk_Pool s)(i \<mapsto> r\<lparr>pr_wasm_hash := hash\<rparr>)"
    by (simp_all add: pool_upgraded_def Let_def)
  from n(2) assms(2) have "record_ok r" by (simp add: registry_ok_def)
  with assms(4) have "record_ok (r\<lparr>pr_wasm_hash := hash\<rparr>)" by (simp add: record_ok_def)
  then have "registry_ok ?t n"
    using n(2) assms(2) by (auto simp: registry_ok_def same)
  moreover have "asset_ids ?t n a = asset_ids s n a" for a
    unfolding asset_ids_def by (rule filter_cong) (auto simp: same assms(2))
  then have "indexes_ok ?t n"
    using n(3) by (simp add: indexes_ok_def same)
  moreover have "admins_ok ?t n"
    using n(4) by (simp add: admins_ok_def same)
  moreover have "wasm_index_ok ?t"
    by (rule pool_upgraded_wasm [OF n(5) assms(2,3)])
  ultimately show ?thesis
    using assms(1) n(1) by (auto simp: factory_ok_def same)
qed

end
