(* ===== verification/Factory_Machine.thy ===== *)
theory Factory_Machine
  imports Factory_Proofs
begin

text \<open>
  The factory as a state machine. \<open>f_effect\<close> lists the atomic effects a successful call can have on
  the registry, each with the authority it needs, and every call decomposes into a sequence of
  them; what an effect keeps, every interleaving of calls keeps.
\<close>

subsection \<open>Synchronizing the total value locked\<close>

definition tvl_synced :: "u32 \<Rightarrow> i128 \<Rightarrow> 'w factory \<Rightarrow> 'w factory" where
  "tvl_synced i live s =
     (let previous = unwrap_or 0 (fk_PoolTvl s i) in
      if live = previous then s
      else s\<lparr>fk_TotalTvl := Some (i128_saturating_sub (i128_saturating_add (unwrap_or 0 (fk_TotalTvl s)) live) previous),
        fk_PoolTvl := (fk_PoolTvl s)(i \<mapsto> live), f_events := f_events s @ [TvlSync i previous live]\<rparr>)"

lemma query_pool_tvl_Done [run_iffs]:
  "query_pool_tvl env a s = Done v t \<longleftrightarrow>
     (\<exists>w. try_total_staked (host env) (f_world s) a = (Some v, w) \<and> t = s\<lparr>f_world := w\<rparr>)"
  by (auto simp: query_pool_tvl_def run_iffs)

lemma query_pool_tvl_Fail:
  "query_pool_tvl env a s = Fail e t \<longleftrightarrow> e = PoolQueryFailed \<and>
     (\<exists>w. try_total_staked (host env) (f_world s) a = (None, w) \<and> t = s\<lparr>f_world := w\<rparr>)"
  by (cases "try_total_staked (host env) (f_world s) a"; cases "fst (try_total_staked (host env) (f_world s) a)")
    (auto simp: query_pool_tvl_def run_simps)

lemma apply_tvl_sync_Done:
  assumes "apply_tvl_sync env i a s = Done v t"
  shows "\<exists>w. try_total_staked (host env) (f_world s) a = (Some v, w) \<and>
    core t = tvl_synced i v ((core s)\<lparr>f_world := w\<rparr>)"
proof -
  from assms obtain x w where call: "try_total_staked (host env) (f_world s) a = (Some x, w)"
    unfolding apply_tvl_sync_def and_then_Done query_pool_tvl_Done by blast
  then have "query_pool_tvl env a s = Done x (s\<lparr>f_world := w\<rparr>)"
    by (simp add: query_pool_tvl_Done)
  with assms have "v = x \<and> core t = tvl_synced i x ((core s)\<lparr>f_world := w\<rparr>)"
    by (auto simp: apply_tvl_sync_def run_simps Let_def bump_defs tvl_synced_def split: if_splits)
  with call show ?thesis by blast
qed

lemma apply_tvl_sync_Fail:
  assumes "apply_tvl_sync env i a s = Fail e t"
  obtains w where "try_total_staked (host env) (f_world s) a = (None, w)" "t = s\<lparr>f_world := w\<rparr>"
proof -
  have "apply_tvl_sync env i a s = Fail e t \<Longrightarrow> query_pool_tvl env a s = Fail e t"
    by (cases "query_pool_tvl env a s") (auto simp: apply_tvl_sync_def run_simps Let_def bump_defs split: if_splits)
  with assms show thesis by (auto simp: query_pool_tvl_Fail intro: that)
qed

subsection \<open>Atomic effects\<close>

inductive f_effect :: "'w env \<Rightarrow> 'w factory \<Rightarrow> 'w factory \<Rightarrow> bool" for env where
  touched: "core t = (core s)\<lparr>f_world := w\<rparr> \<Longrightarrow> f_effect env s t"
| refreshed: "core t = (core s)\<lparr>f_events := f_events s @ [TtlRef a b]\<rparr> \<Longrightarrow> f_effect env s t"
| gap: "fk_Pool s i = None \<Longrightarrow> core t = (core s)\<lparr>f_events := f_events s @ [PoolGap i]\<rparr> \<Longrightarrow> f_effect env s t"
| seeded: "fk_AssetPoolCount s a = None \<Longrightarrow> fk_AssetPools s a = Some ids \<Longrightarrow>
    core t = (core s)\<lparr>fk_AssetPoolCount := (fk_AssetPoolCount s)(a \<mapsto> vec_len ids)\<rparr> \<Longrightarrow> f_effect env s t"
| created: "fk_Admin s = Some adm \<Longrightarrow> adm \<noteq> zero_address \<Longrightarrow> authorized env adm \<Longrightarrow>
    create_pool_inner env adm asset daily gm mlp ms s = Done i t \<Longrightarrow> f_effect env s t"
| upgraded: "fk_Admin s = Some adm \<Longrightarrow> authorized env adm \<Longrightarrow>
    upgrade_pool_inner env adm i hash s = Done () t \<Longrightarrow> f_effect env s t"
| synced: "fk_Pool s i = Some r \<Longrightarrow> apply_tvl_sync env i (pr_address r) s = Done v t \<Longrightarrow> f_effect env s t"
| admin_set: "fk_Admin s = Some adm \<Longrightarrow> authorized env adm \<Longrightarrow> new_admin \<noteq> zero_address \<Longrightarrow>
    u32_checked_add (unwrap_or 0 (fk_AdminTransferCount s)) 1 = Some c \<Longrightarrow>
    core t = (core s)\<lparr>fk_Admin := Some new_admin, fk_AdminTransferCount := Some c,
      f_events := f_events s @ [AdmXfr adm new_admin]\<rparr> \<Longrightarrow> f_effect env s t"
| paused: "fk_Admin s = Some adm \<Longrightarrow> authorized env adm \<Longrightarrow>
    core t = (core s)\<lparr>fk_PoolCreationPaused := Some b,
      f_events := f_events s @ [if b then PauseCr adm else UnpsCr adm]\<rparr> \<Longrightarrow> f_effect env s t"
| wasm_set: "fk_Admin s = Some adm \<Longrightarrow> authorized env adm \<Longrightarrow> hash \<noteq> zero_hash \<Longrightarrow>
    fk_WasmHash s = Some old \<Longrightarrow> hash \<noteq> old \<Longrightarrow>
    core t = (core s)\<lparr>fk_ApprovedWasmHash := (fk_ApprovedWasmHash s)(hash \<mapsto> True),
      fk_WasmHash := Some hash, f_events := f_events s @ [WasmSet old hash]\<rparr> \<Longrightarrow> f_effect env s t"

abbreviation f_effects :: "'w env \<Rightarrow> 'w factory \<Rightarrow> 'w factory \<Rightarrow> bool" where
  "f_effects env \<equiv> (f_effect env)\<^sup>*\<^sup>*"

interpretation eff: frame_relation "f_effects env" for env :: "'w env"
  by unfold_locales auto

lemma effect_touch: "core t = core s \<Longrightarrow> f_effects env s t"
  by (rule r_into_rtranclp, rule touched [where w = "f_world s"]) (simp add: core_def)

lemma effect_world: "f_effects env s (s\<lparr>f_world := w\<rparr>)"
  by (rule r_into_rtranclp, rule touched [where w = w]) simp

lemma keeps_ttl:
  "keeps (f_effects env) (f_bump_instance env')" "keeps (f_effects env) (f_extend env' k)"
  "keeps (f_effects env) f_require_initialized" "keeps (f_effects env) load_admin"
  "keeps (f_effects env) load_wasm_hash" "keeps (f_effects env) read_upgrade_count"
  "keeps (f_effects env) read_admin_transfer_count" "keeps (f_effects env) read_total_tvl"
  "keeps (f_effects env) (read_pool_tvl i)" "keeps (f_effects env) (require_auth env' a)"
  by (rule keepsI, auto simp: run_iffs intro!: effect_touch)+

lemma keeps_call: "keeps (f_effects env) (f_call c)"
  by (rule keepsI) (auto simp: run_iffs intro: effect_world)

lemma keeps_refreshed: "keeps (f_effects env) (f_publish (TtlRef a b))"
  by (rule keepsI, rule r_into_rtranclp, rule refreshed) (auto simp: run_iffs)

lemma keeps_query: "keeps (f_effects env) (query_pool_tvl env a)"
  by (rule keepsI) (auto simp: run_iffs intro: effect_world)

lemmas keeps_prims = eff.keeps_rules keeps_ttl keeps_call keeps_refreshed keeps_query

lemma keeps_listing:
  assumes "\<And>r. \<exists>x. k r = ok x"
  shows "keeps (f_effects env) (and_then (gets (\<lambda>s. fk_Pool s i)) (\<lambda>found.
     case found of Some r \<Rightarrow> and_then (bump_pool env i) (\<lambda>_. k r)
     | None \<Rightarrow> and_then (publish_pool_gap i) (\<lambda>_. ok y)))"
proof (rule keepsI)
  fix s a t
  assume "and_then (gets (\<lambda>s. fk_Pool s i)) (\<lambda>found.
     case found of Some r \<Rightarrow> and_then (bump_pool env i) (\<lambda>_. k r)
     | None \<Rightarrow> and_then (publish_pool_gap i) (\<lambda>_. ok y)) s = Done a t"
  then consider r x where "k r = ok x" "core t = core s"
    | "fk_Pool s i = None" "core t = (core s)\<lparr>f_events := f_events s @ [PoolGap i]\<rparr>"
    using assms by (auto simp: run_iffs bump_pool_def publish_pool_gap_def) (metis core_ttl(1) ok_Done)
  then show "f_effects env s t"
    by cases (auto intro: effect_touch gap)
qed

lemma keeps_sync_loop: "keeps (f_effects env) (sync_loop env i e)"
proof (induction env i e rule: sync_loop.induct)
  case (1 env i e)
  have one: "keeps (f_effects env) (and_then (gets (\<lambda>s. fk_Pool s i)) (\<lambda>found.
      case found of Some r \<Rightarrow> ignore_result (apply_tvl_sync env i (pr_address r)) | None \<Rightarrow> ok ()))"
    by (rule keepsI) (auto simp: run_iffs intro: r_into_rtranclp synced effect_world elim!: apply_tvl_sync_Fail)
  show ?case
  proof (cases "i < e")
    case True
    have "sync_loop env i e = and_then (and_then (gets (\<lambda>s. fk_Pool s i)) (\<lambda>found.
      case found of Some r \<Rightarrow> ignore_result (apply_tvl_sync env i (pr_address r)) | None \<Rightarrow> ok ()))
      (\<lambda>_. sync_loop env (i + 1) e)"
      using True by (subst sync_loop.simps) (auto simp: fun_eq_iff run_simps split: option.split outcome.split)
    with one 1 [OF True] show ?thesis by (auto intro: eff.keeps_rules)
  next
    case False
    then show ?thesis by (subst sync_loop.simps) (simp add: eff.keeps_rules)
  qed
qed

subsection \<open>Invocations\<close>

datatype factory_op =
    FInitialize address bytes | FAdmin | FPoolWasmHash | FPoolCount | FPoolExists u32 | FGetPool u32
  | FListPools u32 u32 | FListPoolsSorted u32 u32 PoolSort
  | FGetPoolsByAssetRange address u32 u32 u32 | FGetPoolsByAsset address u32 u32
  | FPoolCountByAsset address | FGetPoolsByAdmin address | FGetAdminPoolCount address
  | FRefreshPoolTtls u32 u32 | FTransferAdmin address | FAdminTransferCount | FGetAdminTransferCount
  | FUpgradePool u32 bytes | FUpgradePoolsBatch "u32 list" bytes | FUpgradeCount | FTotalTvl
  | FPoolTvlSynced u32 | FPoolTvl u32 | FSyncPoolTvl u32 | FSyncAllPoolTvls u32 u32 | FPoolStatus u32
  | FSetPoolWasmHash bytes | FPausePoolCreation | FUnpausePoolCreation | FIsPoolCreationPaused
  | FCreatePool address u128 u32 u64 i128 | FCreatePoolsBatch "PoolParams list"

datatype factory_value =
    RUnit unit | RAddress address | RHash bytes | RCount u32 | RBool bool | RRecord PoolRecord
  | RPage ListPoolsResponse | RIds "u32 list" | RRefresh RefreshPoolTtlsResponse | RAmount i128
  | RStatus PoolStatus

fun factory_call :: "factory_op \<Rightarrow> 'w env \<Rightarrow> ('w, factory_value) fac" where
  "factory_call (FInitialize a h) env = returns RUnit (factory_initialize env a h)"
| "factory_call FAdmin env = returns RAddress (factory_admin env)"
| "factory_call FPoolWasmHash env = returns RHash (pool_wasm_hash env)"
| "factory_call FPoolCount env = returns RCount (pool_count env)"
| "factory_call (FPoolExists i) env = returns RBool (pool_exists env i)"
| "factory_call (FGetPool i) env = returns RRecord (get_pool env i)"
| "factory_call (FListPools i l) env = returns RPage (list_pools env i l)"
| "factory_call (FListPoolsSorted i l k) env = returns RPage (list_pools_sorted env i l k)"
| "factory_call (FGetPoolsByAssetRange a i c l) env = returns RPage (get_pools_by_asset_range env a i c l)"
| "factory_call (FGetPoolsByAsset a i l) env = returns RPage (get_pools_by_asset env a i l)"
| "factory_call (FPoolCountByAsset a) env = returns RCount (pool_count_by_asset env a)"
| "factory_call (FGetPoolsByAdmin a) env = returns RIds (get_pools_by_admin env a)"
| "factory_call (FGetAdminPoolCount a) env = returns RCount (get_admin_pool_count env a)"
| "factory_call (FRefreshPoolTtls i l) env = returns RRefresh (refresh_pool_ttls env i l)"
| "factory_call (FTransferAdmin a) env = returns RUnit (factory_transfer_admin env a)"
| "factory_call FAdminTransferCount env = returns RCount (admin_transfer_count env)"
| "factory_call FGetAdminTransferCount env = returns RCount (get_admin_transfer_count env)"
| "factory_call (FUpgradePool i h) env = returns RUnit (upgrade_pool env i h)"
| "factory_call (FUpgradePoolsBatch is h) env = returns RUnit (upgrade_pools_batch env is h)"
| "factory_call FUpgradeCount env = returns RCount (upgrade_count env)"
| "factory_call FTotalTvl env = returns RAmount (total_tvl env)"
| "factory_call (FPoolTvlSynced i) env = returns RAmount (pool_tvl_synced env i)"
| "factory_call (FPoolTvl i) env = returns RAmount (pool_tvl env i)"
| "factory_call (FSyncPoolTvl i) env = returns RAmount (sync_pool_tvl env i)"
| "factory_call (FSyncAllPoolTvls i l) env = returns RCount (sync_all_pool_tvls env i l)"
| "factory_call (FPoolStatus i) env = returns RStatus (pool_status env i)"
| "factory_call (FSetPoolWasmHash h) env = returns RUnit (set_pool_wasm_hash env h)"
| "factory_call FPausePoolCreation env = returns RUnit (pause_pool_creation env)"
| "factory_call FUnpausePoolCreation env = returns RUnit (unpause_pool_creation env)"
| "factory_call FIsPoolCreationPaused env = returns RBool (is_pool_creation_paused env)"
| "factory_call (FCreatePool a d g l m) env = returns RCount (create_pool env a d g l m)"
| "factory_call (FCreatePoolsBatch ps) env = returns RIds (create_pools_batch env ps)"

lemma keeps_returns: "keeps (f_effects env) m \<Longrightarrow> keeps (f_effects env) (returns k m)"
  by (simp add: returns_def eff.keeps_rules)

subsubsection \<open>Reads\<close>

lemma keeps_scans:
  "keeps (f_effects env) (scan_asset_index env' i e l ids rs n)"
  "keeps (f_effects env) (scan_registry env' a l ids rs n)"
  by (induction ids arbitrary: rs) (auto simp: bump_defs intro!: keeps_prims)

lemma keeps_reads:
  "keeps (f_effects env) (factory_admin env)" "keeps (f_effects env) (pool_wasm_hash env)"
  "keeps (f_effects env) (pool_count env)" "keeps (f_effects env) (pool_exists env i)"
  "keeps (f_effects env) (get_pool env i)" "keeps (f_effects env) (get_pools_by_admin env a)"
  "keeps (f_effects env) (admin_transfer_count env)" "keeps (f_effects env) (upgrade_count env)"
  "keeps (f_effects env) (total_tvl env)" "keeps (f_effects env) (pool_tvl_synced env i)"
  "keeps (f_effects env) (pool_tvl env i)" "keeps (f_effects env) (pool_status env i)"
  "keeps (f_effects env) (is_pool_creation_paused env)"
  by (auto simp: factory_admin_def pool_wasm_hash_def pool_count_def pool_exists_def get_pool_def
      get_pools_by_admin_def admin_transfer_count_def upgrade_count_def total_tvl_def
      pool_tvl_synced_def pool_tvl_def pool_status_def is_pool_creation_paused_def bump_defs
      intro!: keeps_prims)

lemma keeps_paged:
  "keeps (f_effects env) (list_pools env i l)" "keeps (f_effects env) (list_pools_sorted env i l k)"
  "keeps (f_effects env) (get_pools_by_asset_range env a i c l)"
  "keeps (f_effects env) (refresh_pool_ttls env i l)" "keeps (f_effects env) (sync_all_pool_tvls env i l)"
  unfolding list_pools_def list_pools_sorted_def get_pools_by_asset_range_def refresh_pool_ttls_def
    sync_all_pool_tvls_def Let_def
  by (auto simp: bump_asset_pools_def bump_pool_def [symmetric] intro!: keeps_prims keeps_listing keeps_scans
      keeps_sync_loop) (simp_all add: bump_pool_def keeps_prims)

lemma pool_count_by_asset_effects:
  assumes "pool_count_by_asset env a s = Done v t"
  shows "f_effects env s t"
proof -
  from assms consider "core t = core s" | "fk_AssetPoolCount s a = None" "0 < vec_len (unwrap_or [] (fk_AssetPools s a))"
    "core t = (core s)\<lparr>fk_AssetPoolCount := (fk_AssetPoolCount s)(a \<mapsto> vec_len (unwrap_or [] (fk_AssetPools s a)))\<rparr>"
    by (auto simp: pool_count_by_asset_def run_iffs bump_defs split: if_splits)
  then show ?thesis
  proof cases
    case 2
    then obtain ids where "fk_AssetPools s a = Some ids"
      by (cases "fk_AssetPools s a") (auto simp: vec_len_def)
    with 2 show ?thesis by (auto intro: r_into_rtranclp seeded)
  qed (rule effect_touch)
qed

subsubsection \<open>Writes\<close>

lemma f_bumped_effects: "f_effects env (f_bumped env s) t \<Longrightarrow> f_effects env s t"
  by (rule rtranclp_trans [OF effect_touch]) simp_all

lemma touch_then: "core t = core s \<Longrightarrow> f_effect env t u \<Longrightarrow> f_effects env s u"
  by (rule rtranclp_trans [OF effect_touch r_into_rtranclp])

lemma create_pool_inner_admin:
  assumes "create_pool_inner env adm asset d g l m s = Done i t"
  shows "fk_Admin t = fk_Admin s"
  using assms by (rule create_pool_inner_Done) (drule core_get(1), simp add: pool_added_def)

lemma upgrade_pool_inner_admin:
  assumes "upgrade_pool_inner env adm i h s = Done u t"
  shows "fk_Admin t = fk_Admin s"
  using assms by (rule upgrade_pool_inner_Done) (drule core_get(1), simp add: pool_upgraded_def Let_def)

text \<open>The loops of the two batches run under the authority checked before them.\<close>

lemma create_loop_effects:
  assumes "for_each ps acc (\<lambda>p ids. and_then (create_pool_inner env adm (pp_asset p) (pp_daily_rate p)
      (pp_global_multiplier p) (pp_min_lock_period p) (pp_min_stake_amount p)) (\<lambda>i. ok (ids @ [i]))) s = Done v t"
    and "fk_Admin s = Some adm" and "adm \<noteq> zero_address" and "authorized env adm"
  shows "f_effects env s t"
proof -
  have "f_effects env s t \<and> fk_Admin t = Some adm"
    by (rule for_each_invariant [where P = "\<lambda>u _. f_effects env s u \<and> fk_Admin u = Some adm", OF assms(1)])
      (use assms(2-4) in \<open>auto simp: run_iffs create_pool_inner_admin intro: rtranclp.rtrancl_into_rtrancl created\<close>)
  then show ?thesis ..
qed

lemma upgrade_loop_effects:
  assumes "for_each ids () (\<lambda>i _. upgrade_pool_inner env adm i h) s = Done v t"
    and "fk_Admin s = Some adm" and "authorized env adm"
  shows "f_effects env s t"
proof -
  have "f_effects env s t \<and> fk_Admin t = Some adm"
    by (rule for_each_invariant [where P = "\<lambda>u _. f_effects env s u \<and> fk_Admin u = Some adm", OF assms(1)])
      (use assms(2-3) in \<open>auto simp: upgrade_pool_inner_admin intro: rtranclp.rtrancl_into_rtrancl upgraded\<close>)
  then show ?thesis ..
qed

lemma write_effects:
  "create_pool env asset d g l m s = Done i t \<Longrightarrow> f_effects env s t"
  "create_pools_batch env ps s = Done ids t \<Longrightarrow> f_effects env s t"
  "upgrade_pool env j h s = Done u t \<Longrightarrow> f_effects env s t"
  "upgrade_pools_batch env js h s = Done u t \<Longrightarrow> f_effects env s t"
  "sync_pool_tvl env j s = Done v t \<Longrightarrow> f_effects env s t"
  subgoal by (auto simp: create_pool_def run_iffs validate_factory_admin_def intro!: r_into_rtranclp created)
  subgoal by (auto simp: create_pools_batch_def run_iffs validate_factory_admin_def intro: create_loop_effects)
  subgoal by (auto simp: upgrade_pool_def run_iffs validate_factory_admin_def
        intro!: f_bumped_effects [OF r_into_rtranclp] upgraded)
  subgoal by (auto simp: upgrade_pools_batch_def run_iffs validate_factory_admin_def
        intro: f_bumped_effects [OF upgrade_loop_effects])
  subgoal by (auto simp: sync_pool_tvl_def run_iffs bump_defs
        intro!: touch_then [where t = "f_extended env (KPool j) (f_bumped env s)"] intro: synced)
  done

lemma setting_effects:
  "factory_transfer_admin env a s = Done u t \<Longrightarrow> f_effects env s t"
  "set_pool_wasm_hash env h s = Done u t \<Longrightarrow> f_effects env s t"
  "pause_pool_creation env s = Done u t \<Longrightarrow> f_effects env s t"
  "unpause_pool_creation env s = Done u t \<Longrightarrow> f_effects env s t"
  subgoal by (rule r_into_rtranclp) (auto simp: factory_transfer_admin_def run_iffs increment_admin_transfer_count_def
        intro!: admin_set)
  subgoal by (rule r_into_rtranclp) (auto simp: set_pool_wasm_hash_def run_iffs intro!: wasm_set)
  subgoal by (rule r_into_rtranclp) (auto simp: pause_pool_creation_def run_iffs intro!: paused [where b = True])
  subgoal by (rule r_into_rtranclp) (auto simp: unpause_pool_creation_def run_iffs intro!: paused [where b = False])
  done

lemmas read_effects = keeps_reads [THEN keepsD] keeps_paged [THEN keepsD]

text \<open>Every successful call of an initialized factory is a sequence of atomic effects.\<close>

lemma factory_call_effects:
  assumes "fk_Admin s \<noteq> None" and "factory_call op env s = Done v t"
  shows "f_effects env s t"
  using assms by (cases op) (auto simp: run_iffs factory_initialize_def get_pools_by_asset_def
      get_admin_pool_count_def get_admin_transfer_count_def
      intro: write_effects setting_effects pool_count_by_asset_effects read_effects)

subsection \<open>The invariant\<close>

lemma factory_ok_eq: "core t = u \<Longrightarrow> factory_ok t = factory_ok u"
  using factory_ok_core by blast

lemma factory_ok_writes:
  "factory_ok s \<Longrightarrow> a \<noteq> zero_address \<Longrightarrow> factory_ok (s\<lparr>fk_Admin := Some a\<rparr>)"
  "factory_ok s \<Longrightarrow> h \<noteq> zero_hash \<Longrightarrow>
     factory_ok (s\<lparr>fk_ApprovedWasmHash := (fk_ApprovedWasmHash s)(h \<mapsto> True), fk_WasmHash := Some h\<rparr>)"
  by (auto simp: factory_ok_def factory_inv_defs)

lemma tvl_synced_ok:
  assumes "factory_ok s" and "fk_Pool s i = Some r"
  shows "factory_ok (tvl_synced i v s)"
proof -
  from assms(1) obtain n where "registry_ok s n" "fk_PoolCount s = Some n" by (auto simp: factory_ok_def)
  with assms(2) have "i < n" by (auto simp: registry_ok_def)
  with assms(1) \<open>fk_PoolCount s = Some n\<close> show ?thesis
    by (auto simp: tvl_synced_def Let_def factory_ok_def factory_inv_defs)
qed

lemma effect_ok:
  assumes "factory_ok s" and "f_effect env s t"
  shows "factory_ok t"
  using assms(2)
proof cases
  case (seeded a ids)
  with assms(1) have False by (auto simp: factory_ok_def indexes_ok_def)
  then show ?thesis ..
next
  case (created adm asset daily gm mlp ms i)
  with assms(1) show ?thesis by (blast elim: create_pool_inner_ok)
next
  case (upgraded adm i hash)
  from upgraded(3) obtain r w where "fk_Pool s i = Some r" "hash \<noteq> pr_wasm_hash r" "hash \<noteq> zero_hash"
    and t: "core t = pool_upgraded i r hash w (core s)" by (rule upgrade_pool_inner_Done)
  with assms(1) show ?thesis
    unfolding factory_ok_eq [OF t] by (intro pool_upgraded_ok) (simp_all add: factory_ok_core)
next
  case (synced i r v)
  from apply_tvl_sync_Done [OF synced(2)] obtain w where
    t: "core t = tvl_synced i v ((core s)\<lparr>f_world := w\<rparr>)" by blast
  from synced(1) assms(1) show ?thesis
    unfolding factory_ok_eq [OF t] by (intro tvl_synced_ok) (simp_all add: factory_ok_core)
next
  case (admin_set adm new_admin c)
  with assms(1) show ?thesis
    by (simp add: factory_ok_eq [OF admin_set(5)] factory_ok_writes factory_ok_core)
next
  case (wasm_set adm hash old)
  then show ?thesis
    using factory_ok_writes(2) [of "core s" hash] assms(1)
    by (simp add: factory_ok_eq [OF wasm_set(6)] factory_ok_core)
next
  case (touched w)
  with assms(1) show ?thesis by (simp add: factory_ok_eq [OF touched] factory_ok_core)
next
  case (refreshed a b)
  with assms(1) show ?thesis by (simp add: factory_ok_eq [OF refreshed] factory_ok_core)
next
  case (gap i)
  with assms(1) show ?thesis by (simp add: factory_ok_eq [OF gap(2)] factory_ok_core)
next
  case (paused adm b)
  with assms(1) show ?thesis by (simp add: factory_ok_eq [OF paused(3)] factory_ok_core)
qed

lemma effects_ok:
  assumes "f_effects env s t" and "factory_ok s"
  shows "factory_ok t"
  using assms by (induction rule: rtranclp_induct) (auto intro: effect_ok)

subsubsection \<open>Before initialization\<close>

definition factory_fresh :: "'w factory \<Rightarrow> bool" where
  "factory_fresh s \<longleftrightarrow> core s = empty_factory 0 (f_world s)"

definition factory_inv :: "'w factory \<Rightarrow> bool" where
  "factory_inv s \<longleftrightarrow> factory_fresh s \<or> factory_ok s"

definition initialized_with :: "address \<Rightarrow> bytes \<Rightarrow> 'w factory \<Rightarrow> 'w factory" where
  "initialized_with a h s = s\<lparr>fk_Admin := Some a, fk_WasmHash := Some h,
     fk_ApprovedWasmHash := (fk_ApprovedWasmHash s)(h \<mapsto> True), fk_PoolCount := Some 0\<rparr>"

fun is_finitialize :: "factory_op \<Rightarrow> bool" where
  "is_finitialize (FInitialize a h) = True"
| "is_finitialize op = False"

lemma factory_uninit_fails:
  assumes "fk_Admin s = None" and "\<not> is_finitialize op"
  shows "factory_call op env s = Fail NotInitialized s"
  using assms by (cases op) (simp_all add: run_simps factory_admin_def pool_wasm_hash_def pool_count_def
      pool_exists_def get_pool_def list_pools_def list_pools_sorted_def get_pools_by_asset_range_def
      get_pools_by_asset_def pool_count_by_asset_def get_pools_by_admin_def get_admin_pool_count_def
      refresh_pool_ttls_def factory_transfer_admin_def admin_transfer_count_def get_admin_transfer_count_def
      upgrade_pool_def upgrade_pools_batch_def upgrade_count_def total_tvl_def pool_tvl_synced_def
      pool_tvl_def sync_pool_tvl_def sync_all_pool_tvls_def pool_status_def set_pool_wasm_hash_def
      pause_pool_creation_def unpause_pool_creation_def is_pool_creation_paused_def create_pool_def
      create_pools_batch_def)

lemma factory_initialize_Done:
  "factory_initialize env a h s = Done u t \<Longrightarrow>
     fk_Admin s = None \<and> a \<noteq> zero_address \<and> h \<noteq> zero_hash \<and> core t = initialized_with a h (core s)"
  by (auto simp: factory_initialize_def run_iffs initialized_with_def)

lemma fresh_initialized_ok:
  assumes "factory_fresh s" and "a \<noteq> zero_address" and "h \<noteq> zero_hash"
  shows "factory_ok (initialized_with a h (core s))"
  using assms by (auto simp: factory_fresh_def initialized_with_def empty_factory_def factory_ok_def factory_inv_defs)

lemma fresh_admin: "factory_fresh s \<Longrightarrow> fk_Admin s = None"
  by (auto simp: factory_fresh_def empty_factory_def dest: core_get(1))

lemma factory_inv_ok:
  "factory_inv s \<Longrightarrow> fk_Admin s \<noteq> None \<Longrightarrow> factory_ok s"
  "factory_inv s \<Longrightarrow> fk_PoolCount s = Some n \<Longrightarrow> factory_ok s"
  "factory_inv s \<Longrightarrow> fk_Pool s i = Some r \<Longrightarrow> factory_ok s"
  by (auto simp: factory_inv_def factory_fresh_def empty_factory_def dest: core_get(1,2,8))

lemma factory_ok_admin: "factory_ok s \<Longrightarrow> fk_Admin s \<noteq> None"
  by (auto simp: factory_ok_def)

text \<open>What a successful call does, initialized or not.\<close>

lemma factory_call_cases:
  assumes "factory_inv s" and "factory_call op env s = Done v t"
  obtains (init) a h where "op = FInitialize a h" "factory_fresh s" "a \<noteq> zero_address" "h \<noteq> zero_hash"
    "core t = initialized_with a h (core s)"
  | (effects) "factory_ok s" "f_effects env s t"
proof (cases "fk_Admin s = None")
  case True
  with assms(2) factory_uninit_fails [OF True, of op env] have "is_finitialize op" by auto
  moreover from True assms(1) have "factory_fresh s" by (auto simp: factory_inv_def dest: factory_ok_admin)
  ultimately show thesis
    using assms(2) by (cases op) (auto simp: run_iffs dest!: factory_initialize_Done intro: init)
next
  case False
  with assms(1) have "factory_ok s" by (auto simp: factory_inv_def dest: fresh_admin)
  then show thesis by (rule effects) (rule factory_call_effects [OF False assms(2)])
qed

lemma factory_call_ok:
  assumes "factory_inv s" and "factory_call op env s = Done v t"
  shows "factory_ok t"
  using assms
proof (cases rule: factory_call_cases)
  case (init a h)
  then show ?thesis
    unfolding factory_ok_eq [OF init(5)] by (intro fresh_initialized_ok)
next
  case effects
  then show ?thesis by (blast intro: effects_ok)
qed

subsection \<open>Calls that return\<close>

text \<open>An upgrade returns when the pool answers with the factory's admin and accepts the new code.\<close>

lemma upgrade_pool_inner_returns:
  assumes "fk_Pool s i = Some r" and "try_pool_admin (host env) (f_world s) (pr_address r) = (Some adm, w1)"
    and "hash \<noteq> pr_wasm_hash r" and "hash \<noteq> zero_hash" and "try_upgrade (host env) w1 (pr_address r) hash = (True, w2)"
  shows "\<exists>t. upgrade_pool_inner env adm i hash s = Done () t"
  using assms by (auto simp: upgrade_pool_inner_def run_simps Let_def bump_defs split: option.split)

lemma create_pool_returns:
  assumes "factory_ok s" and "fk_Admin s = Some adm" and "authorized env adm"
    and "\<not> unwrap_or False (fk_PoolCreationPaused s)"
    and "try_symbol (host env) (f_world s) asset = (True, w1)"
    and "try_balance (host env) w1 asset (current_contract env) = (Some b, w2)"
    and "pool_params_valid (current_contract env) adm asset daily gm mlp ms"
    and "fk_PoolCount s = Some i" and "i \<noteq> u32_max" and "fk_WasmHash s = Some hash"
    and "deploy_v2 (host env) w2 (current_contract env) (pool_salt i) hash = Some (addr, w3)"
    and "pool_initialize (host env) w3 addr (new_init_args adm asset daily gm mlp ms) = Some w4"
  shows "\<exists>t. create_pool env asset daily gm mlp ms s = Done i t"
proof -
  from assms(1,8) have inv: "registry_ok s i" "indexes_ok s i" by (auto simp: factory_ok_def)
  from assms(9) obtain n where n: "u32_checked_add i 1 = Some n"
    using u32_checked_add_1_None [of i] by (cases "u32_checked_add i 1") simp_all
  from create_pool_inner_returns [OF assms(4-8) n assms(10-12) pool_added_count [OF inv n]]
  have "\<exists>t. create_pool_inner env adm asset daily gm mlp ms s = Done i t" .
  moreover have "adm \<noteq> zero_address" using assms(1,2) by (auto simp: factory_ok_def)
  ultimately show ?thesis
    using assms(2,3) by (auto simp: create_pool_def run_simps validate_factory_admin_def)
qed

lemma create_pool_Done:
  "create_pool env asset daily gm mlp ms s = Done i t \<longleftrightarrow>
     (\<exists>adm. fk_Admin s = Some adm \<and> adm \<noteq> zero_address \<and> authorized env adm \<and>
       create_pool_inner env adm asset daily gm mlp ms s = Done i t)"
  by (auto simp: create_pool_def run_iffs validate_factory_admin_def)

subsection \<open>The system\<close>

text \<open>
  A factory at its address, called by anybody with any authorizations at any ledger, in a world that
  changes freely between the calls.
\<close>

inductive factory_step :: "'w host \<Rightarrow> address \<Rightarrow> 'w factory \<Rightarrow> 'w factory \<Rightarrow> bool" for h self where
  fcall: "host env = h \<Longrightarrow> current_contract env = self \<Longrightarrow>
    factory_step h self s (snd (invoke (factory_call op env) s))"
| foutside: "factory_step h self s (s\<lparr>f_world := w\<rparr>)"

inductive_cases factory_stepE: "factory_step h self s t"

lemma factory_inv_world: "factory_inv s \<Longrightarrow> factory_inv (s\<lparr>f_world := w\<rparr>)"
  by (auto simp: factory_inv_def factory_fresh_def empty_factory_def)

lemma factory_step_inv:
  assumes "factory_inv s" and "factory_step h self s t"
  shows "factory_inv t"
  using assms(2)
proof cases
  case (fcall env op)
  show ?thesis
    unfolding fcall(1)
    by (rule invoke_preserves [where P = factory_inv, OF assms(1)])
      (use factory_call_ok [OF assms(1)] factory_inv_def in blast)
qed (use assms(1) in \<open>simp add: factory_inv_world\<close>)

interpretation factory_wf: inductive_invariant factory_fresh "factory_step h self" factory_inv for h self
  by unfold_locales (simp add: factory_inv_def, rule factory_step_inv)

subsection \<open>Properties that effects keep\<close>

text \<open>
  The contract of a property of initialized factories: initialization establishes it, and every atomic
  effect of a call to this factory on this host keeps it. Then it holds whenever the factory is
  initialized, however calls are interleaved.
\<close>

locale effect_property =
  fixes h :: "'w host" and self :: address and P :: "'w factory \<Rightarrow> bool"
  assumes P_initialized: "factory_fresh s \<Longrightarrow> a \<noteq> zero_address \<Longrightarrow> hash \<noteq> zero_hash \<Longrightarrow>
      core t = initialized_with a hash (core s) \<Longrightarrow> P t"
    and P_effect: "factory_ok s \<Longrightarrow> f_effect env s t \<Longrightarrow> host env = h \<Longrightarrow> current_contract env = self \<Longrightarrow> P s \<Longrightarrow> P t"
begin

lemma P_effects:
  assumes "f_effects env s t" and "factory_ok s" and "host env = h" and "current_contract env = self" and "P s"
  shows "P t"
  using assms(1)
proof (induction rule: rtranclp_induct)
  case (step t u)
  from P_effect [OF effects_ok [OF step.hyps(1) assms(2)] step.hyps(2) assms(3,4) step.IH] show ?case .
qed (rule assms(5))

lemma P_outside: "factory_ok s \<Longrightarrow> P s \<Longrightarrow> P (s\<lparr>f_world := w\<rparr>)"
  by (rule P_effect [where s = s and env = "\<lparr>host = h, sequence = 0, current_contract = self, authorized = (\<lambda>a. False)\<rparr>"])
    (auto intro: touched)

lemma P_call:
  assumes "factory_inv s" and "factory_ok s \<Longrightarrow> P s" and "host env = h" and "current_contract env = self"
    and "factory_call op env s = Done v t"
  shows "P t"
  using assms(1,5)
proof (cases rule: factory_call_cases)
  case (init a hash)
  then show ?thesis by (intro P_initialized)
next
  case effects
  from P_effects [OF effects(2,1) assms(3,4) assms(2) [OF effects(1)]] show ?thesis .
qed

lemma P_step:
  assumes "factory_inv s" and "factory_ok s \<longrightarrow> P s" and "factory_step h self s t" and "factory_ok t"
  shows "P t"
  using assms(3)
proof cases
  case (fcall env op)
  show ?thesis
  proof (cases "factory_call op env" s rule: invoke_cases)
    case (returned v u)
    with P_call [OF assms(1) _ fcall(2,3) returned(1)] assms(2) fcall(1) show ?thesis by simp
  qed (use assms(2,4) fcall(1) in simp_all)
next
  case (foutside w)
  with assms(2,4) show ?thesis by (simp add: P_outside)
qed

sublocale whenever_ok: inductive_invariant factory_fresh "factory_step h self"
  "\<lambda>s. factory_inv s \<and> (factory_ok s \<longrightarrow> P s)"
proof unfold_locales
  fix s :: "'w factory"
  assume "factory_fresh s"
  then show "factory_inv s \<and> (factory_ok s \<longrightarrow> P s)"
    using fresh_admin [of s] factory_ok_admin [of s] by (auto simp: factory_inv_def)
next
  fix s t :: "'w factory"
  assume "factory_inv s \<and> (factory_ok s \<longrightarrow> P s)" and "factory_step h self s t"
  then show "factory_inv t \<and> (factory_ok t \<longrightarrow> P t)"
    by (blast intro: factory_step_inv P_step)
qed

lemma reach_P: "reach factory_fresh (factory_step h self) s \<Longrightarrow> factory_ok s \<Longrightarrow> P s"
  using whenever_ok.reach_invariant [of s] by simp

end

end
