(* ===== verification/Factory_Listing.thy ===== *)
theory Factory_Listing
  imports Factory_Machine "HOL-Library.Product_Lexorder" "HOL-Library.Multiset"
begin

text \<open>
  The listings of the factory: what one page of \<open>list_pools\<close>, \<open>list_pools_sorted\<close> and
  \<open>get_pools_by_asset_range\<close> contains, that a client who follows \<open>next_start_id\<close> sees every item once
  (the locale \<open>pager\<close>), and that the sorted page is the sorted unsorted page.
\<close>

subsection \<open>Following the pages\<close>

text \<open>A client that follows \<open>next_start_id\<close> while \<open>has_more\<close> is set, for at most so many calls.\<close>

fun drain :: "nat \<Rightarrow> (u32 \<Rightarrow> ('s, 'e, 'a list \<times> u32 \<times> bool) rust) \<Rightarrow> u32 \<Rightarrow> ('s, 'e, 'a list) rust" where
  "drain 0 page start = ok []"
| "drain (Suc calls) page start = and_then (page start) (\<lambda>(xs, next, more).
     if more then and_then (drain calls page next) (\<lambda>ys. ok (xs @ ys)) else ok xs)"

text \<open>
  What a paged read promises in the states of \<open>inv\<close>: it returns, and a page that starts below
  \<open>total_count\<close> holds exactly the items from its start to its successor, which is further on.
\<close>

locale pager =
  fixes page :: "u32 \<Rightarrow> ('s, 'e, 'a list \<times> u32 \<times> bool) rust" and inv :: "'s \<Rightarrow> bool"
    and items :: "u32 \<Rightarrow> u32 \<Rightarrow> 'a list" and total_count :: u32
  assumes page_runs: "inv s \<Longrightarrow> start < total_count \<Longrightarrow>
      \<exists>next t. page start s = Done (items start next, next, next < total_count) t \<and> inv t \<and> start < next \<and> next \<le> total_count"
    and page_beyond: "inv s \<Longrightarrow> total_count \<le> start \<Longrightarrow> \<exists>t. page start s = Done ([], total_count, False) t \<and> inv t"
    and items_split: "a \<le> b \<Longrightarrow> b \<le> c \<Longrightarrow> items a c = items a b @ items b c"
begin

lemma drain_all:
  "inv s \<Longrightarrow> start < total_count \<Longrightarrow> unat total_count - unat start \<le> calls \<Longrightarrow>
     \<exists>t. drain calls page start s = Done (items start total_count) t \<and> inv t"
proof (induction calls arbitrary: start s)
  case 0
  then show ?case by (simp add: word_less_nat_alt)
next
  case (Suc calls)
  from page_runs [OF Suc.prems(1,2)] obtain nx t where
    p: "page start s = Done (items start nx, nx, nx < total_count) t" "inv t" "start < nx" "nx \<le> total_count" by blast
  show ?case
  proof (cases "nx < total_count")
    case True
    with p(3) Suc.prems(3) have "unat total_count - unat nx \<le> calls"
      by (simp add: word_less_nat_alt)
    from Suc.IH [OF p(2) True this] obtain u where
      "drain calls page nx t = Done (items nx total_count) u" "inv u" by blast
    with p True items_split [of start nx total_count] show ?thesis by (simp add: run_simps)
  next
    case False
    with p(4) have "nx = total_count" by simp
    with p show ?thesis by (simp add: run_simps)
  qed
qed

end

subsection \<open>Ranges of pool IDs\<close>

lemma sorted_u32_range: "sorted_wrt (<) (u32_range a b)"
proof -
  have "sorted_wrt (\<lambda>x y. unat x < unat y) (u32_range a b)"
    using sorted_wrt_map [of "(<)" unat "u32_range a b"] by (simp add: map_unat_u32_range)
  then show ?thesis by (simp add: word_less_nat_alt [abs_def])
qed

lemma filter_window:
  assumes "a \<le> b" and "b \<le> n"
  shows "filter (\<lambda>i. a \<le> i \<and> i < b) (u32_range 0 n) = u32_range a b"
proof -
  have "u32_range 0 n = u32_range 0 a @ u32_range a b @ u32_range b n"
    using assms u32_range_append [of 0 a n] u32_range_append [of a b n] by simp
  moreover have "filter (\<lambda>i. a \<le> i \<and> i < b) (u32_range 0 a) = []" "filter (\<lambda>i. a \<le> i \<and> i < b) (u32_range b n) = []"
    "filter (\<lambda>i. a \<le> i \<and> i < b) (u32_range a b) = u32_range a b"
    by (auto simp: filter_empty_conv filter_id_conv)
  ultimately show ?thesis by simp
qed

lemma page_end:
  fixes start total_count :: u32
  assumes "start < total_count" and "0 < cap"
  shows "start < min (u32_saturating_add start cap) total_count" and "min (u32_saturating_add start cap) total_count \<le> total_count"
proof -
  have "unat start < unat (u32_saturating_add start cap)"
    using assms unat_u32_less [of total_count] by (auto simp: unat_u32_saturating_add word_less_nat_alt)
  with assms(1) show "start < min (u32_saturating_add start cap) total_count"
    by (simp add: word_less_nat_alt min_def)
qed simp

lemma page_cap_bounds: "0 < page_cap l" "unat (page_cap l) \<le> 20"
  by (auto simp: page_cap_def min_def word_le_nat_alt word_neq_0_conv)

subsection \<open>One page\<close>

definition entry :: "'w factory \<Rightarrow> u32 \<Rightarrow> u32 \<times> PoolRecord" where
  "entry s i = (i, the (fk_Pool s i))"

lemma entry_frame [simp]: "entry (f_bumped env s) = entry s" "entry (f_extended env k s) = entry s"
  by (simp_all add: entry_def fun_eq_iff)

lemma bump_pool_run [run_simps]:
  "bump_pool env i s = (if fk_Pool s i = None then Trap else Done () (f_extended env (KPool i) s))"
  by (simp add: bump_pool_def run_simps)

text \<open>A loop that reads the records of a range, folding each into an accumulator.\<close>

lemma listing_loop:
  assumes "\<forall>i \<in> set ids. fk_Pool s i \<noteq> None"
  shows "\<exists>t. for_each ids acc (\<lambda>i acc.
      and_then (gets (\<lambda>s. fk_Pool s i)) (\<lambda>found.
      case found of
        Some r \<Rightarrow> and_then (bump_pool env i) (\<lambda>_. ok (f acc (i, r)))
      | None \<Rightarrow> and_then (publish_pool_gap i) (\<lambda>_. ok acc))) s = Done (foldl f acc (map (entry s) ids)) t \<and>
    core t = core s"
  using assms
proof (induction ids arbitrary: acc s)
  case Nil
  then show ?case by (simp add: run_simps)
next
  case (Cons i ids)
  from Cons.prems obtain r where r: "fk_Pool s i = Some r" by auto
  let ?u = "f_extended env (KPool i) s"
  let ?body = "\<lambda>i acc. and_then (gets (\<lambda>s. fk_Pool s i)) (\<lambda>found. case found of
      Some r \<Rightarrow> and_then (bump_pool env i) (\<lambda>_. ok (f acc (i, r)))
    | None \<Rightarrow> and_then (publish_pool_gap i) (\<lambda>_. ok acc))"
  have first: "for_each (i # ids) acc ?body s = for_each ids (f acc (i, r)) ?body ?u"
    using r by (simp add: run_simps)
  have fold: "foldl f acc (map (entry s) (i # ids)) = foldl f (f acc (i, r)) (map (entry s) ids)"
    using r by (simp add: entry_def)
  have "\<forall>j \<in> set ids. fk_Pool ?u j \<noteq> None" using Cons.prems by simp
  from Cons.IH [OF this, of "f acc (i, r)"] show ?case
    unfolding first fold core_ttl entry_frame .
qed

lemma foldl_snoc: "foldl (\<lambda>xs x. xs @ [x]) acc ys = acc @ ys"
  by (induction ys arbitrary: acc) simp_all

lemma registry_count: "factory_ok s \<Longrightarrow> fk_PoolCount s = Some n \<Longrightarrow> fk_Pool s i \<noteq> None \<longleftrightarrow> i < n"
  by (simp add: factory_ok_def registry_ok_def) metis

definition page_of :: "u32 \<Rightarrow> (u32 \<times> PoolRecord) list \<Rightarrow> u32 \<Rightarrow> ListPoolsResponse" where
  "page_of total_count records next =
     \<lparr>lp_records = records, lp_next_start_id = next, lp_total = total_count, lp_has_more = next < total_count\<rparr>"

lemma list_pools_run:
  assumes "factory_ok s" and "fk_PoolCount s = Some n" and "e = min (u32_saturating_add i (page_cap l)) n"
  shows "\<exists>t. list_pools env i l s =
      Done (if i < n then page_of n (map (entry s) (u32_range i e)) e else page_of n [] n) t \<and> core t = core s"
proof (cases "i < n")
  case True
  have "fk_Admin s \<noteq> None" using assms(1) by (rule factory_ok_admin)
  moreover have ex: "\<forall>j \<in> set (u32_range i e). fk_Pool (f_bumped env s) j \<noteq> None"
    using registry_count [OF assms(1,2)] assms(3) by auto
  ultimately show ?thesis
    using True assms(2,3) listing_loop [OF ex, of "[]" env "\<lambda>xs x. xs @ [x]"] page_end(2) [OF True page_cap_bounds(1), of l]
    by (auto simp: list_pools_def run_simps page_of_def foldl_snoc not_le [symmetric] Let_def)
next
  case False
  with assms(1,2) show ?thesis
    by (auto simp: list_pools_def run_simps page_of_def not_less dest: factory_ok_admin)
qed

subsection \<open>Sorting\<close>

text \<open>The rank by which a key orders the entries: its value, then the pool ID.\<close>

definition sort_rank :: "PoolSort \<Rightarrow> u32 \<times> PoolRecord \<Rightarrow> int \<times> u32" where
  "sort_rank key x = (case key of
      PoolId \<Rightarrow> uint (fst x)
    | CreditRate \<Rightarrow> pr_credit_rate (snd x)
    | GlobalMultiplier \<Rightarrow> uint (pr_global_multiplier (snd x))
    | MinLockPeriod \<Rightarrow> uint (pr_min_lock_period (snd x)), fst x)"

lemma sort_precedes_rank: "sort_precedes key x y \<longleftrightarrow> sort_rank key x < sort_rank key y"
  by (auto simp: sort_precedes_def sort_rank_def ord_cmp_def Let_def less_prod_def word_less_def
      word_uint_eq_iff split: PoolSort.splits)

lemma insert_position_split:
  "insert_position key x xs n (n + length xs) = n + length (takeWhile (\<lambda>y. \<not> sort_precedes key x y) xs)"
proof (induction xs arbitrary: n)
  case (Cons y ys)
  from Cons.IH [of "Suc n"] show ?case by simp
qed simp

lemma insert_sorted_split:
  "insert_sorted xs x key = takeWhile (\<lambda>y. \<not> sort_precedes key x y) xs @ x #
     dropWhile (\<lambda>y. \<not> sort_precedes key x y) xs"
  using insert_position_split [of key x xs 0]
  by (simp add: insert_sorted_def takeWhile_eq_take [symmetric] dropWhile_eq_drop [symmetric])

text \<open>\<open>insert_sorted\<close> is the insertion of the library's insertion sort, on entries with new ranks.\<close>

lemma insert_sorted_insort:
  "sort_rank key x \<notin> sort_rank key ` set xs \<Longrightarrow> insert_sorted xs x key = insort_key (sort_rank key) x xs"
  by (induction xs) (auto simp: insert_sorted_split sort_precedes_rank not_less)

lemma snd_sort_rank: "snd (sort_rank key x) = fst x"
  by (simp add: sort_rank_def)

lemma foldl_insert_sorted:
  assumes "distinct (map fst xs)"
  shows "foldl (\<lambda>acc x. insert_sorted acc x key) [] xs = sort_key (sort_rank key) xs"
  using assms
proof (induction xs rule: rev_induct)
  case (snoc x xs)
  let ?f = "sort_rank key"
  have ids: "inj_on fst (set (xs @ [x]))"
    using snoc.prems unfolding distinct_map by blast
  have inj: "inj_on ?f (set (xs @ [x]))"
    by (rule inj_onI) (metis ids inj_onD snd_sort_rank)
  have "x \<notin> set xs"
    using snoc.prems by (auto simp: rev_image_eqI)
  then have new: "?f x \<notin> ?f ` set xs"
    using inj by (auto dest: inj_onD)
  have "insert_sorted (sort_key ?f xs) x key = insort_key ?f x (sort_key ?f xs)"
    using new by (intro insert_sorted_insort) simp
  also have "\<dots> = sort_key ?f (xs @ [x])"
    by (rule sort_key_inj_key_eq [symmetric]) (use inj in \<open>auto simp: sorted_insort_key\<close>)
  finally show ?case using snoc by simp
qed simp

lemma list_pools_sorted_run:
  assumes "factory_ok s" and "fk_PoolCount s = Some n" and "e = min (u32_saturating_add i (page_cap l)) n"
  shows "\<exists>t. list_pools_sorted env i l key s =
      Done (if i < n then page_of n (sort_key (sort_rank key) (map (entry s) (u32_range i e))) e else page_of n [] n) t \<and>
    core t = core s"
proof (cases "i < n")
  case True
  have "fk_Admin s \<noteq> None" using assms(1) by (rule factory_ok_admin)
  moreover have ex: "\<forall>j \<in> set (u32_range i e). fk_Pool (f_bumped env s) j \<noteq> None"
    using registry_count [OF assms(1,2)] assms(3) by auto
  moreover have "map fst (map (entry s) (u32_range i e)) = u32_range i e"
    by (simp add: entry_def comp_def)
  then have "foldl (\<lambda>acc x. insert_sorted acc x key) [] (map (entry s) (u32_range i e)) =
      sort_key (sort_rank key) (map (entry s) (u32_range i e))"
    by (intro foldl_insert_sorted) simp
  ultimately show ?thesis
    using True assms(2,3) listing_loop [OF ex, of "[]" env "\<lambda>acc x. insert_sorted acc x key"]
      page_end(2) [OF True page_cap_bounds(1), of l]
    by (auto simp: list_pools_sorted_def run_simps page_of_def not_le [symmetric] Let_def)
next
  case False
  with assms(1,2) show ?thesis
    by (auto simp: list_pools_sorted_def run_simps page_of_def not_less dest: factory_ok_admin)
qed

subsection \<open>The pools of an asset\<close>

text \<open>
  What the scan of the index returns from a sorted list of IDs: the first IDs of the window that
  fit, and as the next start the first ID left out, or the end of the window.
\<close>

definition window :: "u32 \<Rightarrow> u32 \<Rightarrow> u32 list \<Rightarrow> u32 list" where
  "window a b ids = filter (\<lambda>i. a \<le> i \<and> i < b) ids"

lemma unat_vec_len: "length xs < 4294967296 \<Longrightarrow> unat (vec_len xs) = length xs"
  by (simp add: vec_len_def unat_of_nat)

lemma window_beyond: "sorted_wrt (<) (i # ids) \<Longrightarrow> b \<le> i \<Longrightarrow> window a b (i # ids) = []"
  by (auto simp: window_def filter_empty_conv)

lemma scan_asset_index_run:
  assumes "\<forall>i \<in> set ids. fk_Pool s i \<noteq> None" and "sorted_wrt (<) ids" and "length rs \<le> unat cap"
    and "unat cap \<le> 20"
  shows "\<exists>t. scan_asset_index env a b cap ids rs b s =
      Done (let w = window a b ids; k = unat cap - length rs
            in (rs @ map (entry s) (take k w), if k < length w then w ! k else b)) t \<and>
    core t = core s"
  using assms
proof (induction ids arbitrary: rs s)
  case Nil
  then show ?case by (simp add: run_simps window_def)
next
  case (Cons i ids)
  have len: "vec_len rs \<ge> cap \<longleftrightarrow> length rs = unat cap"
    using Cons.prems(3,4) by (auto simp: word_le_nat_alt unat_vec_len)
  have IH: "\<exists>t. scan_asset_index env a b cap ids rs' b u =
      Done (let w = window a b ids; k = unat cap - length rs'
            in (rs' @ map (entry u) (take k w), if k < length w then w ! k else b)) t \<and> core t = core u"
    if "\<forall>j \<in> set ids. fk_Pool u j \<noteq> None" "length rs' \<le> unat cap" for u rs'
    using Cons.IH [OF that(1) _ that(2)] Cons.prems(2,4) by simp
  consider "i < a" | "a \<le> i" "b \<le> i" | "a \<le> i" "i < b" "length rs = unat cap"
    | "a \<le> i" "i < b" "length rs < unat cap"
    using Cons.prems(3) by fastforce
  then show ?case
  proof cases
    case 1
    then have "window a b (i # ids) = window a b ids" by (auto simp: window_def)
    with 1 IH [of s rs] Cons.prems show ?thesis by simp
  next
    case 2
    with window_beyond [OF Cons.prems(2) 2(2)] show ?thesis by (auto simp: run_simps)
  next
    case 3
    with len show ?thesis by (auto simp: run_simps window_def)
  next
    case 4
    from Cons.prems(1) obtain r where r: "fk_Pool s i = Some r" by auto
    let ?u = "f_extended env (KPool i) s" and ?rs = "rs @ [entry s i]"
    have step: "scan_asset_index env a b cap (i # ids) rs b s = scan_asset_index env a b cap ids ?rs b ?u"
      using 4 len r by (auto simp: run_simps entry_def)
    have k: "unat cap - length rs = Suc (unat cap - Suc (length rs))" using 4(3) by simp
    have w: "window a b (i # ids) = i # window a b ids" using 4 by (simp add: window_def)
    have "\<forall>j \<in> set ids. fk_Pool ?u j \<noteq> None" "length ?rs \<le> unat cap" using Cons.prems(1) 4(3) by simp_all
    from IH [OF this] show ?thesis
      unfolding step w by (auto simp: Let_def k)
  qed
qed

lemma scan_registry_none:
  assumes "\<forall>i \<in> set ids. \<forall>r. fk_Pool s i = Some r \<longrightarrow> pr_asset r \<noteq> a" and "0 < cap"
  shows "scan_registry env a cap ids [] e s = Done ([], e) s"
  using assms by (induction ids) (auto simp: run_simps vec_len_def split: option.split)

text \<open>The first entries of a sorted window are the window of a shorter range.\<close>

lemma sorted_take_filter:
  assumes "sorted_wrt (<) (w :: u32 list)" and "k < length w"
  shows "take k w = filter (\<lambda>i. i < w ! k) w"
proof -
  have "w = take k w @ w ! k # drop (Suc k) w"
    using assms(2) by (rule id_take_nth_drop)
  moreover have "\<forall>i \<in> set (take k w). i < w ! k" "\<forall>i \<in> set (drop (Suc k) w). w ! k < i"
    using assms by (auto simp: in_set_conv_nth sorted_wrt_iff_nth_less)
  ultimately show ?thesis
    by (metis (no_types, lifting) append_Nil2 filter_False filter_True filter.simps(2) filter_append less_asym less_irrefl)
qed

lemma window_asset_ids:
  assumes "a \<le> b" and "b \<le> n"
  shows "window a b (asset_ids s n asset) = filter (\<lambda>i. pr_asset (the (fk_Pool s i)) = asset) (u32_range a b)"
  unfolding window_def asset_ids_def filter_window [OF assms, symmetric] by (simp add: conj_commute)

lemma sorted_asset_ids: "sorted_wrt (<) (asset_ids s n asset)"
  unfolding asset_ids_def by (rule sorted_wrt_filter [OF sorted_u32_range])

definition asset_entries :: "'w factory \<Rightarrow> address \<Rightarrow> u32 \<Rightarrow> u32 \<Rightarrow> (u32 \<times> PoolRecord) list" where
  "asset_entries s asset a b = map (entry s) (filter (\<lambda>i. pr_asset (the (fk_Pool s i)) = asset) (u32_range a b))"

lemma window_take:
  assumes "k < length (window a b (asset_ids s n asset))" and "a \<le> b" and "b \<le> n"
    and "j = window a b (asset_ids s n asset) ! k" and "0 < k"
  shows "map (entry s) (take k (window a b (asset_ids s n asset))) = asset_entries s asset a j" and "a < j" and "j < b"
proof -
  let ?w = "window a b (asset_ids s n asset)"
  have sorted: "sorted_wrt (<) ?w"
    unfolding window_def by (rule sorted_wrt_filter [OF sorted_asset_ids])
  have "j \<in> set ?w" using assms(1,4) by simp
  moreover have "?w ! 0 \<in> set ?w" by (rule nth_mem) (use assms(1) in linarith)
  ultimately have j: "j < b" "a \<le> ?w ! 0" by (auto simp: window_def)
  moreover have "?w ! 0 < j"
    using sorted assms(1,4,5) by (simp add: sorted_wrt_iff_nth_less)
  ultimately show "a < j" "j < b" by auto
  have "take k ?w = filter (\<lambda>i. i < j) ?w"
    using sorted_take_filter [OF sorted assms(1)] assms(4) by simp
  also have "\<dots> = window a j (asset_ids s n asset)"
    unfolding window_def filter_filter by (rule filter_cong) (use j(1) in auto)
  finally show "map (entry s) (take k ?w) = asset_entries s asset a j"
    using \<open>a < j\<close> j(1) assms(3) by (simp add: asset_entries_def window_asset_ids)
qed

text \<open>The two branches of the filtered listing, for the window that ends at \<open>e\<close>.\<close>

lemma scan_registry_page:
  assumes "asset_ids s n asset = []" and "e \<le> n" and "i < e"
  shows "scan_registry env asset (page_cap l) (u32_range i e) [] e (f_bumped env s) =
    Done (asset_entries s asset i e, e) (f_bumped env s)"
proof -
  have "asset_entries s asset i e = []"
    using window_asset_ids [of i e n s asset] assms by (simp add: asset_entries_def window_def)
  moreover have none: "pr_asset (the (fk_Pool s j)) \<noteq> asset" if "j < n" for j
    using assms(1) that by (auto simp: asset_ids_def filter_empty_conv)
  have "scan_registry env asset (page_cap l) (u32_range i e) [] e (f_bumped env s) = Done ([], e) (f_bumped env s)"
    by (intro scan_registry_none page_cap_bounds) (auto dest!: none [OF less_le_trans [OF _ assms(2)]])
  ultimately show ?thesis by simp
qed

lemma scan_asset_index_page:
  assumes "factory_ok s" and "fk_PoolCount s = Some n" and "e \<le> n" and "i < e"
    and u: "u = f_extended env (KAssetPools asset) (f_bumped env s)"
  shows "\<exists>nx t. scan_asset_index env i e (page_cap l) (asset_ids s n asset) [] e u =
    Done (asset_entries s asset i nx, nx) t \<and> core t = core s \<and> i < nx \<and> nx \<le> n"
proof -
  let ?ids = "asset_ids s n asset"
  let ?w = "window i e ?ids" and ?k = "unat (page_cap l)"
  define nx where "nx = (if ?k < length ?w then ?w ! ?k else e)"
  have k: "0 < ?k" "?k \<le> 20" using page_cap_bounds [of l] by (simp_all add: word_less_nat_alt)
  have "\<forall>j \<in> set ?ids. fk_Pool u j \<noteq> None"
    using registry_count [OF assms(1,2)] by (auto simp: asset_ids_def u)
  from scan_asset_index_run [OF this sorted_asset_ids _ k(2), of "[]" env i e] obtain t where
    t: "scan_asset_index env i e (page_cap l) ?ids [] e u = Done (map (entry s) (take ?k ?w), nx) t" "core t = core s"
    by (auto simp: Let_def nx_def u)
  have "map (entry s) (take ?k ?w) = asset_entries s asset i nx \<and> i < nx \<and> nx \<le> n"
  proof (cases "?k < length ?w")
    case True
    with window_take [OF True _ assms(3) _ k(1)] assms(3,4) nx_def show ?thesis by force
  next
    case False
    with assms(3,4) window_asset_ids [of i e n s asset] show ?thesis by (simp add: asset_entries_def nx_def)
  qed
  with t show ?thesis by auto
qed

lemma get_pools_by_asset_range_run:
  assumes "factory_ok s" and "fk_PoolCount s = Some n" and "i < n"
  shows "\<exists>e t. get_pools_by_asset_range env asset i scan l s = Done (page_of n (asset_entries s asset i e) e) t \<and>
    core t = core s \<and> i < e \<and> e \<le> n"
proof -
  let ?cap = "if scan = 0 then MAX_POOL_SCAN_PER_CALL else min scan MAX_POOL_SCAN_PER_CALL"
  define e where "e = min (u32_saturating_add i ?cap) n"
  have "0 < ?cap" by (auto simp: MAX_POOL_SCAN_PER_CALL_def min_def word_neq_0_conv)
  note e = page_end [OF assms(3) this, folded e_def]
  have adm: "fk_Admin s \<noteq> None" using assms(1) by (rule factory_ok_admin)
  have idx: "fk_AssetPools s asset = (if asset_ids s n asset = [] then None else Some (asset_ids s n asset))"
    using assms(1,2) by (auto simp: factory_ok_def indexes_ok_def)
  show ?thesis
  proof (cases "asset_ids s n asset = []")
    case True
    from scan_registry_page [OF this e(2,1)] show ?thesis
      using True idx adm assms(2,3) e
      by (intro exI [of _ e]) (auto simp: get_pools_by_asset_range_def run_simps page_of_def Let_def not_le e_def [symmetric])
  next
    case False
    obtain nx t where
      t: "scan_asset_index env i e (page_cap l) (asset_ids s n asset) [] e (f_extended env (KAssetPools asset) (f_bumped env s)) =
        Done (asset_entries s asset i nx, nx) t" "core t = core s" "i < nx" "nx \<le> n"
      using scan_asset_index_page [OF assms(1,2) e(2,1) refl] by blast
    have "get_pools_by_asset_range env asset i scan l s = Done (page_of n (asset_entries s asset i nx) nx) t"
      using False idx adm assms(2,3) t(1)
      by (auto simp: get_pools_by_asset_range_def run_simps page_of_def Let_def bump_asset_pools_def e_def [symmetric])
    with t(2-4) show ?thesis by auto
  qed
qed

subsection \<open>The listings as paged reads\<close>

definition page_result :: "ListPoolsResponse \<Rightarrow> (u32 \<times> PoolRecord) list \<times> u32 \<times> bool" where
  "page_result p = (lp_records p, lp_next_start_id p, lp_has_more p)"

definition snapshot :: "'w factory \<Rightarrow> 'w factory \<Rightarrow> bool" where
  "snapshot s\<^sub>0 s \<longleftrightarrow> factory_ok s \<and> core s = core s\<^sub>0"

lemma snapshot_fields:
  assumes "snapshot s\<^sub>0 s"
  shows "factory_ok s" and "fk_PoolCount s = Some (unwrap_or 0 (fk_PoolCount s\<^sub>0))" and "entry s = entry s\<^sub>0"
    and "asset_entries s = asset_entries s\<^sub>0" and "core t = core s \<Longrightarrow> snapshot s\<^sub>0 t"
proof -
  from assms have c: "core s = core s\<^sub>0" and ok: "factory_ok s" by (auto simp: snapshot_def)
  from ok show "factory_ok s" .
  from ok show "fk_PoolCount s = Some (unwrap_or 0 (fk_PoolCount s\<^sub>0))"
    using core_get(2) [OF c] by (auto simp: factory_ok_def)
  show e: "entry s = entry s\<^sub>0" using core_get(8) [OF c] by (simp add: entry_def fun_eq_iff)
  show "asset_entries s = asset_entries s\<^sub>0"
    using core_get(8) [OF c] e by (simp add: asset_entries_def fun_eq_iff)
  show "core t = core s \<Longrightarrow> snapshot s\<^sub>0 t"
    using c ok factory_ok_core_eq by (auto simp: snapshot_def)
qed

lemma entries_append:
  "a \<le> b \<Longrightarrow> b \<le> c \<Longrightarrow> map f (u32_range a c) = map f (u32_range a b) @ map f (u32_range b c)"
  by (simp add: u32_range_append [of a b c])

lemma asset_entries_append:
  "a \<le> b \<Longrightarrow> b \<le> c \<Longrightarrow> asset_entries s asset a c = asset_entries s asset a b @ asset_entries s asset b c"
  by (simp add: asset_entries_def u32_range_append [of a b c])

interpretation pools_pager: pager "\<lambda>i. returns page_result (list_pools env i l)" "snapshot s\<^sub>0"
  "\<lambda>a b. map (entry s\<^sub>0) (u32_range a b)" "unwrap_or 0 (fk_PoolCount s\<^sub>0)" for env :: "'w env" and l s\<^sub>0
proof unfold_locales
  fix s :: "'w factory" and start
  let ?n = "unwrap_or 0 (fk_PoolCount s\<^sub>0)"
  let ?e = "min (u32_saturating_add start (page_cap l)) ?n"
  assume snap: "snapshot s\<^sub>0 s"
  note f = snapshot_fields [OF snap]
  from list_pools_run [OF f(1,2) refl, where i = start and l = l and env = env] obtain t where
    t: "list_pools env start l s = Done (if start < ?n then page_of ?n (map (entry s) (u32_range start ?e)) ?e
      else page_of ?n [] ?n) t" "core t = core s" by blast
  note snap' = f(5) [OF t(2)]
  show "\<exists>nx t. returns page_result (list_pools env start l) s =
      Done (map (entry s\<^sub>0) (u32_range start nx), nx, nx < ?n) t \<and> snapshot s\<^sub>0 t \<and> start < nx \<and> nx \<le> ?n"
    if "start < ?n"
    using that t(1) snap' page_end [OF that page_cap_bounds(1), of l]
    by (intro exI [of _ ?e] exI [of _ t]) (simp add: run_simps page_result_def page_of_def f(3))
  show "\<exists>t. returns page_result (list_pools env start l) s = Done ([], ?n, False) t \<and> snapshot s\<^sub>0 t"
    if "?n \<le> start"
    using that t(1) snap' by (intro exI [of _ t]) (simp add: run_simps page_result_def page_of_def not_less [symmetric])
qed (rule entries_append)

interpretation asset_pager: pager "\<lambda>i. returns page_result (get_pools_by_asset_range env asset i scan l)" "snapshot s\<^sub>0"
  "asset_entries s\<^sub>0 asset" "unwrap_or 0 (fk_PoolCount s\<^sub>0)" for env :: "'w env" and asset scan l s\<^sub>0
proof unfold_locales
  fix s :: "'w factory" and start
  let ?n = "unwrap_or 0 (fk_PoolCount s\<^sub>0)"
  assume snap: "snapshot s\<^sub>0 s"
  note f = snapshot_fields [OF snap]
  show "\<exists>nx t. returns page_result (get_pools_by_asset_range env asset start scan l) s =
      Done (asset_entries s\<^sub>0 asset start nx, nx, nx < ?n) t \<and> snapshot s\<^sub>0 t \<and> start < nx \<and> nx \<le> ?n"
    if lt: "start < ?n"
  proof -
    from get_pools_by_asset_range_run [OF f(1,2) lt, of env asset scan l] obtain e t where
      "get_pools_by_asset_range env asset start scan l s = Done (page_of ?n (asset_entries s asset start e) e) t"
      "core t = core s" "start < e" "e \<le> ?n" by blast
    with f(4,5) show ?thesis
      by (intro exI [of _ e] exI [of _ t]) (simp add: run_simps page_result_def page_of_def)
  qed
  show "\<exists>t. returns page_result (get_pools_by_asset_range env asset start scan l) s = Done ([], ?n, False) t \<and> snapshot s\<^sub>0 t"
    if "?n \<le> start"
    using that f(2) factory_ok_admin [OF f(1)] f(5) [of "f_bumped env s"]
    by (intro exI [of _ "f_bumped env s"]) (simp add: get_pools_by_asset_range_def run_simps page_result_def)
qed (rule asset_entries_append)

end
