(* ===== verification/Factory_Ttl.thy ===== *)
theory Factory_Ttl
  imports Factory_Listing
begin

text \<open>
  Times to live. No call of the factory removes an entry or moves a live-until ledger back
  (\<open>ttl_le\<close>, kept by every primitive and so by every entry point), and a sweep of
  \<open>refresh_pool_ttls\<close> leaves each pool record of its range with at least the threshold to live.
\<close>

definition ttl_le :: "'w factory \<Rightarrow> 'w factory \<Rightarrow> bool" where
  "ttl_le s t \<longleftrightarrow> f_instance_live_until s \<le> f_instance_live_until t \<and>
     (\<forall>k. f_has s k \<longrightarrow> f_has t k \<and> f_live_until s k \<le> f_live_until t k)"

interpretation ttl: frame_relation ttl_le
  by unfold_locales (auto simp: ttl_le_def intro: order_trans)

lemma ttl_hostD: "ttl_host h \<Longrightarrow> live \<le> extend_ttl h a b now live"
  by (simp add: ttl_host_def)

lemma f_has_ttl [simp]:
  "f_has (s\<lparr>f_live_until := m\<rparr>) k = f_has s k" "f_has (s\<lparr>f_instance_live_until := l\<rparr>) k = f_has s k"
  "f_has (s\<lparr>f_world := w\<rparr>) k = f_has s k"
  by (cases k; simp)+

lemma ttl_extended:
  assumes "ttl_host (host env)"
  shows "ttl_le s (f_extended env k s)" and "ttl_le s (f_bumped env s)"
  using ttl_hostD [OF assms] by (auto simp: ttl_le_def f_extended_def f_bumped_def)

lemma ttl_prims:
  assumes "ttl_host (host env)"
  shows "keeps ttl_le (f_extend env k)" and "keeps ttl_le (f_bump_instance env)"
  by (rule keepsI, auto simp: run_iffs ttl_extended [OF assms])+

text \<open>A write that keeps the entries and does not touch the live-until ledgers.\<close>

definition plain_write :: "('w factory \<Rightarrow> 'w factory) \<Rightarrow> bool" where
  "plain_write wr \<longleftrightarrow> (\<forall>s. f_instance_live_until (wr s) = f_instance_live_until s \<and>
     f_live_until (wr s) = f_live_until s \<and> (\<forall>k. f_has s k \<longrightarrow> f_has (wr s) k))"

lemma plain_writeI:
  assumes "\<And>s. f_instance_live_until (wr s) = f_instance_live_until s" and "\<And>s. f_live_until (wr s) = f_live_until s"
    and "\<And>s i. fk_Pool s i \<noteq> None \<Longrightarrow> fk_Pool (wr s) i \<noteq> None"
    and "\<And>s i. fk_AssetPools s i \<noteq> None \<Longrightarrow> fk_AssetPools (wr s) i \<noteq> None"
    and "\<And>s i. fk_AssetPoolCount s i \<noteq> None \<Longrightarrow> fk_AssetPoolCount (wr s) i \<noteq> None"
    and "\<And>s i. fk_PoolsByAdmin s i \<noteq> None \<Longrightarrow> fk_PoolsByAdmin (wr s) i \<noteq> None"
    and "\<And>s i. fk_PoolsByWasmHash s i \<noteq> None \<Longrightarrow> fk_PoolsByWasmHash (wr s) i \<noteq> None"
    and "\<And>s i. fk_ApprovedWasmHash s i \<noteq> None \<Longrightarrow> fk_ApprovedWasmHash (wr s) i \<noteq> None"
    and "\<And>s i. fk_PoolTvl s i \<noteq> None \<Longrightarrow> fk_PoolTvl (wr s) i \<noteq> None"
  shows "plain_write wr"
proof -
  have "f_has s k \<Longrightarrow> f_has (wr s) k" for s k
    by (cases k) (simp_all only: f_has.simps assms(3-9) not_False_eq_True)
  with assms(1,2) show ?thesis by (simp add: plain_write_def)
qed

lemma ttl_put: "plain_write wr \<Longrightarrow> keeps ttl_le (f_put env k wr)"
  by (rule keepsI) (auto simp: run_iffs ttl_le_def f_stored_def plain_write_def)

lemma ttl_modify: "plain_write wr \<Longrightarrow> keeps ttl_le (modify wr)"
  by (rule keepsI) (auto simp: run_iffs ttl_le_def plain_write_def)

lemma plain_writes:
  "plain_write (\<lambda>s. s\<lparr>fk_Admin := x1\<rparr>)" "plain_write (\<lambda>s. s\<lparr>fk_PoolCount := x2\<rparr>)"
  "plain_write (\<lambda>s. s\<lparr>fk_WasmHash := x3\<rparr>)" "plain_write (\<lambda>s. s\<lparr>fk_PoolCreationPaused := x4\<rparr>)"
  "plain_write (\<lambda>s. s\<lparr>fk_AdminTransferCount := x5\<rparr>)" "plain_write (\<lambda>s. s\<lparr>fk_UpgradeCount := x6\<rparr>)"
  "plain_write (\<lambda>s. s\<lparr>fk_TotalTvl := x7\<rparr>)" "plain_write (\<lambda>s. s\<lparr>f_events := f_events s @ [ev]\<rparr>)"
  "plain_write (\<lambda>s. s\<lparr>fk_Pool := (fk_Pool s)(i \<mapsto> r)\<rparr>)"
  "plain_write (\<lambda>s. s\<lparr>fk_PoolTvl := (fk_PoolTvl s)(i \<mapsto> v)\<rparr>)"
  "plain_write (\<lambda>s. s\<lparr>fk_AssetPools := (fk_AssetPools s)(a \<mapsto> ids)\<rparr>)"
  "plain_write (\<lambda>s. s\<lparr>fk_AssetPoolCount := (fk_AssetPoolCount s)(a \<mapsto> c)\<rparr>)"
  "plain_write (\<lambda>s. s\<lparr>fk_PoolsByAdmin := (fk_PoolsByAdmin s)(a \<mapsto> ids)\<rparr>)"
  "plain_write (\<lambda>s. s\<lparr>fk_PoolsByWasmHash := (fk_PoolsByWasmHash s)(h \<mapsto> ids)\<rparr>)"
  "plain_write (\<lambda>s. s\<lparr>fk_ApprovedWasmHash := (fk_ApprovedWasmHash s)(h \<mapsto> b)\<rparr>)"
  by (rule plain_writeI; simp)+

lemma ttl_reads:
  "keeps ttl_le f_require_initialized" "keeps ttl_le load_admin" "keeps ttl_le load_wasm_hash"
  "keeps ttl_le read_upgrade_count" "keeps ttl_le read_admin_transfer_count" "keeps ttl_le read_total_tvl"
  "keeps ttl_le (read_pool_tvl i)" "keeps ttl_le (require_auth env a)" "keeps ttl_le (daily_rate_to_credit_rate d)"
  by (rule keepsI, auto simp: run_iffs intro: ttl.frame_refl)+

lemma ttl_world: "ttl_le s (s\<lparr>f_world := w\<rparr>)"
  by (simp add: ttl_le_def)

lemma ttl_calls: "keeps ttl_le (f_call c)" "keeps ttl_le (f_invoke c')" "keeps ttl_le (f_publish ev)"
  by (auto simp: run_iffs ttl_world f_publish_def intro!: keepsI ttl_modify plain_writes)

lemmas ttl_rules = ttl.keeps_rules ttl_put ttl_modify plain_writes ttl_reads ttl_calls

text \<open>The internal functions that write, then the entry points.\<close>

lemma ttl_sync:
  assumes "ttl_host (host env)"
  shows "keeps ttl_le (apply_tvl_sync env i a)" and "keeps ttl_le (ignore_result (apply_tvl_sync env i a))"
proof -
  note rules = ttl_rules ttl_prims [OF assms]
  show sync: "keeps ttl_le (apply_tvl_sync env i a)"
    by (auto simp: apply_tvl_sync_def query_pool_tvl_def bump_defs Let_def intro!: rules)
  show "keeps ttl_le (ignore_result (apply_tvl_sync env i a))"
    by (rule ttl.keeps_ignore [OF sync]) (auto elim!: apply_tvl_sync_Fail simp: ttl_world)
qed

lemma ttl_sync_loop:
  assumes "ttl_host (host env)"
  shows "keeps ttl_le (sync_loop env i e)"
  using assms
proof (induction env i e rule: sync_loop.induct)
  case (1 env i e)
  then show ?case
    by (subst sync_loop.simps) (auto intro!: ttl_rules ttl_sync)
qed

lemma ttl_inner:
  assumes "ttl_host (host env)"
  shows "keeps ttl_le (create_pool_inner env adm asset d g l m)" and "keeps ttl_le (upgrade_pool_inner env adm i h)"
  unfolding create_pool_inner_def upgrade_pool_inner_def validate_asset_def bump_defs Let_def
  by (intro ttl_rules ttl_prims [OF assms])+

lemma ttl_scans:
  assumes "ttl_host (host env)"
  shows "keeps ttl_le (scan_asset_index env i e l ids rs n)" and "keeps ttl_le (scan_registry env a l ids rs n)"
  by (induction ids arbitrary: rs) (auto simp: bump_defs intro!: ttl_rules ttl_prims [OF assms])

lemmas factory_entry_defs = factory_admin_def pool_wasm_hash_def pool_count_def pool_exists_def get_pool_def
  list_pools_def list_pools_sorted_def get_pools_by_asset_range_def get_pools_by_asset_def
  pool_count_by_asset_def get_pools_by_admin_def get_admin_pool_count_def refresh_pool_ttls_def
  factory_transfer_admin_def admin_transfer_count_def get_admin_transfer_count_def upgrade_pool_def
  upgrade_pools_batch_def upgrade_count_def total_tvl_def pool_tvl_synced_def pool_tvl_def
  sync_pool_tvl_def sync_all_pool_tvls_def pool_status_def set_pool_wasm_hash_def
  pause_pool_creation_def unpause_pool_creation_def is_pool_creation_paused_def create_pool_def
  create_pools_batch_def factory_initialize_def

lemma ttl_factory_call:
  assumes "ttl_host (host env)"
  shows "keeps ttl_le (factory_call op env)"
  by (cases op) (simp_all only: factory_call.simps factory_entry_defs bump_defs Let_def returns_def
      validate_factory_admin_def publish_pool_gap_def query_pool_tvl_def increment_admin_transfer_count_def,
    (intro ttl_rules ttl_prims [OF assms] ttl_sync [OF assms] ttl_sync_loop [OF assms] ttl_inner [OF assms]
      ttl_scans [OF assms])+)

subsection \<open>The refresh sweep\<close>

definition refresh_body :: "'w env \<Rightarrow> u32 \<Rightarrow> u32 list \<times> u32 \<Rightarrow> ('w, u32 list \<times> u32) fac" where
  "refresh_body env pool_id = (\<lambda>(refreshed, missing).
     and_then (gets (\<lambda>s. f_has s (KPool pool_id))) (\<lambda>has.
     if has then and_then (bump_pool env pool_id) (\<lambda>_. ok (refreshed @ [pool_id], missing))
     else and_then (u32_add missing 1) (\<lambda>missing'. ok (refreshed, missing'))))"

text \<open>A record lives long enough at a ledger when at least the threshold is left.\<close>

definition lives :: "'w env \<Rightarrow> 'w factory \<Rightarrow> fkey \<Rightarrow> bool" where
  "lives env s k \<longleftrightarrow> unat (sequence env) + unat TTL_THRESHOLD \<le> f_live_until s k"

lemma lives_extended: "ttl_host (host env) \<Longrightarrow> lives env (f_extended env k s) k"
proof -
  assume host: "ttl_host (host env)"
  have "unat TTL_THRESHOLD \<le> unat TTL_EXTEND_TO" by (simp add: TTL_THRESHOLD_def TTL_EXTEND_TO_def)
  with host show ?thesis
    unfolding lives_def f_extended_def ttl_host_def
    by (cases "f_live_until s k < unat (sequence env) + unat TTL_THRESHOLD") (auto, (meson add_left_mono le_trans not_le)+)
qed

lemma refresh_loop:
  assumes "\<forall>i \<in> set ids. fk_Pool s i \<noteq> None" and "ttl_host (host env)"
  shows "\<exists>t. for_each ids (done, missing) (refresh_body env) s = Done (done @ ids, missing) t \<and>
    core t = core s \<and> (\<forall>i \<in> set ids. lives env t (KPool i)) \<and> ttl_le s t"
  using assms(1)
proof (induction ids arbitrary: "done" s)
  case Nil
  then show ?case by (simp add: run_simps ttl.frame_refl)
next
  case (Cons i ids)
  let ?u = "f_extended env (KPool i) s"
  have first: "for_each (i # ids) (done, missing) (refresh_body env) s = for_each ids (done @ [i], missing) (refresh_body env) ?u"
    using Cons.prems by (auto simp: refresh_body_def run_simps)
  from Cons.IH [of ?u "done @ [i]"] Cons.prems obtain t where
    t: "for_each ids (done @ [i], missing) (refresh_body env) ?u = Done (done @ i # ids, missing) t"
      "core t = core s" "\<forall>j \<in> set ids. lives env t (KPool j)" "ttl_le ?u t" by auto
  have "f_has ?u (KPool i)" using Cons.prems by simp
  with t(4) lives_extended [OF assms(2), of "KPool i" s] have "lives env t (KPool i)"
    unfolding ttl_le_def lives_def by (meson le_trans)
  with t ttl.frame_trans [OF ttl_extended(1) [OF assms(2)] t(4)] show ?case
    unfolding first by auto
qed

lemma refresh_pool_ttls_run:
  assumes "factory_ok s" and "fk_PoolCount s = Some n" and "ttl_host (host env)"
    and "e = min (u32_saturating_add i (min l 20)) n"
  shows "\<exists>t. refresh_pool_ttls env i l s =
      Done \<lparr>rp_refreshed = u32_range i e, rp_end_id = e, rp_missing = 0\<rparr> t \<and>
    core t = (core s)\<lparr>f_events := f_events s @ [TtlRef i e]\<rparr> \<and>
    (\<forall>j \<in> set (u32_range i e). lives env t (KPool j)) \<and> ttl_le s t"
proof -
  have "\<forall>j \<in> set (u32_range i e). fk_Pool (f_bumped env s) j \<noteq> None"
    using registry_count [OF assms(1,2)] assms(4) by auto
  from refresh_loop [OF this assms(3), of "[]" 0] obtain t where
    t: "for_each (u32_range i e) ([], 0) (refresh_body env) (f_bumped env s) = Done (u32_range i e, 0) t"
      "core t = core s" "\<forall>j \<in> set (u32_range i e). lives env t (KPool j)" "ttl_le (f_bumped env s) t" by auto
  let ?t = "t\<lparr>f_events := f_events t @ [TtlRef i e]\<rparr>"
  have "refresh_pool_ttls env i l s = Done \<lparr>rp_refreshed = u32_range i e, rp_end_id = e, rp_missing = 0\<rparr> ?t"
    using t(1) assms(2,4) factory_ok_admin [OF assms(1)]
    by (auto simp: refresh_pool_ttls_def run_simps Let_def refresh_body_def [abs_def])
  moreover have "ttl_le s t"
    by (rule ttl.frame_trans [OF ttl_extended(2) [OF assms(3)] t(4)])
  then have "ttl_le s ?t"
    using plain_writes(8) [of "TtlRef i e"] by (auto simp: plain_write_def ttl_le_def)
  ultimately show ?thesis
    using t(2,3) core_get(15) [OF t(2)] by (intro exI [of _ ?t]) (simp add: lives_def)
qed

end
