(* ===== verification/Registry.thy ===== *)
theory Registry
  imports Factory_Machine
begin

text \<open>
  The factory as a registry: a list of pools with the value last synchronized for each. What every
  effect of the factory keeps of it is that pools are only added at the end and keep everything but
  their code (\<open>rg_extends\<close>), and the events the factory publishes are enough to rebuild it
  (\<open>index_event\<close>). What each call does to it is in \<open>Factory_Refinement\<close>.
\<close>

subsection \<open>The abstract registry\<close>

record registry =
  rg_pools :: "PoolRecord list"
  rg_tvls :: "i128 list"

definition empty_registry :: registry where
  "empty_registry = \<lparr>rg_pools = [], rg_tvls = []\<rparr>"

definition rg_register :: "PoolRecord \<Rightarrow> registry \<Rightarrow> registry" where
  "rg_register r g = \<lparr>rg_pools = rg_pools g @ [r], rg_tvls = rg_tvls g @ [0]\<rparr>"

definition rg_upgrade :: "nat \<Rightarrow> bytes \<Rightarrow> registry \<Rightarrow> registry" where
  "rg_upgrade i h g = g\<lparr>rg_pools := (rg_pools g)[i := (rg_pools g ! i)\<lparr>pr_wasm_hash := h\<rparr>]\<rparr>"

definition rg_sync :: "nat \<Rightarrow> i128 \<Rightarrow> registry \<Rightarrow> registry" where
  "rg_sync i v g = g\<lparr>rg_tvls := (rg_tvls g)[i := v]\<rparr>"

text \<open>What is never taken back: a pool stays in its place with everything but its code.\<close>

definition same_pool :: "PoolRecord \<Rightarrow> PoolRecord \<Rightarrow> bool" where
  "same_pool r q \<longleftrightarrow> q\<lparr>pr_wasm_hash := pr_wasm_hash r\<rparr> = r"

definition rg_extends :: "registry \<Rightarrow> registry \<Rightarrow> bool" where
  "rg_extends g g' \<longleftrightarrow> length (rg_pools g) \<le> length (rg_pools g') \<and>
     (\<forall>i < length (rg_pools g). same_pool (rg_pools g ! i) (rg_pools g' ! i))"

lemma same_pool_refl [simp]: "same_pool r r"
  by (simp add: same_pool_def)

lemma same_pool_fields:
  "same_pool r q \<longleftrightarrow> pr_address q = pr_address r \<and> pr_asset q = pr_asset r \<and>
     pr_credit_rate q = pr_credit_rate r \<and> pr_global_multiplier q = pr_global_multiplier r \<and>
     pr_min_lock_period q = pr_min_lock_period r \<and> pr_daily_rate q = pr_daily_rate r"
  by (cases r; cases q) (auto simp: same_pool_def)

lemma same_pool_trans: "same_pool r q \<Longrightarrow> same_pool q p \<Longrightarrow> same_pool r p"
  by (simp add: same_pool_fields)

lemma rg_extends_trans: "rg_extends g g' \<Longrightarrow> rg_extends g' g'' \<Longrightarrow> rg_extends g g''"
  unfolding rg_extends_def by (meson less_le_trans order_trans same_pool_trans)

lemma rg_extends_refl [simp]: "rg_extends g g"
  by (simp add: rg_extends_def)

lemma nth_list_update_if: "i < length xs \<Longrightarrow> xs[k := v] ! i = (if k = i then v else xs ! i)"
  by (cases "k = i") simp_all

lemma rg_extends_ops [simp]:
  "rg_extends g (rg_register r g)" "rg_extends g (rg_upgrade i h g)" "rg_extends g (rg_sync i v g)"
  by (auto simp: rg_extends_def rg_register_def rg_upgrade_def rg_sync_def nth_append nth_list_update_if same_pool_def)

subsection \<open>The registry of a factory\<close>

definition registry_of :: "'w factory \<Rightarrow> registry" where
  "registry_of s = (let ids = u32_range 0 (unwrap_or 0 (fk_PoolCount s)) in
     \<lparr>rg_pools = map (\<lambda>i. the (fk_Pool s i)) ids, rg_tvls = map (\<lambda>i. unwrap_or 0 (fk_PoolTvl s i)) ids\<rparr>)"

lemma registry_of_core: "core t = u \<Longrightarrow> registry_of t = registry_of u"
  by (auto simp: registry_of_def)

lemma registry_of_frame [simp]:
  "registry_of (core s) = registry_of s"
  "registry_of (s\<lparr>f_world := w\<rparr>) = registry_of s" "registry_of (s\<lparr>f_events := es\<rparr>) = registry_of s"
  "registry_of (s\<lparr>fk_Admin := a\<rparr>) = registry_of s" "registry_of (s\<lparr>fk_WasmHash := h\<rparr>) = registry_of s"
  "registry_of (s\<lparr>fk_PoolCreationPaused := p\<rparr>) = registry_of s"
  "registry_of (s\<lparr>fk_AdminTransferCount := c\<rparr>) = registry_of s"
  "registry_of (s\<lparr>fk_ApprovedWasmHash := m\<rparr>) = registry_of s"
  "registry_of (s\<lparr>fk_AssetPoolCount := ac\<rparr>) = registry_of s"
  by (simp_all add: registry_of_def)

lemma nth_u32_range: "k < unat n \<Longrightarrow> u32_range 0 n ! k = of_nat k"
  by (simp add: u32_range_def)

lemma of_nat_eq_u32: "k < unat (n :: u32) \<Longrightarrow> of_nat k = i \<longleftrightarrow> k = unat (i :: u32)"
  using unat_u32_less [of n] by (auto simp: unat_of_nat)

lemma map_u32_range_upd:
  "i < n \<Longrightarrow> map (\<lambda>j. if j = i then v else f j) (u32_range 0 n) = (map f (u32_range 0 n))[unat i := v]"
  by (rule nth_equalityI) (auto simp: nth_u32_range nth_list_update of_nat_eq_u32)

lemma registry_of_added:
  assumes "fk_PoolCount s = Some i" and "u32_checked_add i 1 = Some n"
  shows "registry_of (pool_added adm st i n c r w s) = rg_register r (registry_of s)"
proof -
  have "map (\<lambda>j. the (((fk_Pool s)(i \<mapsto> r)) j)) (u32_range 0 i) = map (\<lambda>j. the (fk_Pool s j)) (u32_range 0 i)"
    "map (\<lambda>j. unwrap_or 0 (((fk_PoolTvl s)(i \<mapsto> 0)) j)) (u32_range 0 i) =
     map (\<lambda>j. unwrap_or 0 (fk_PoolTvl s j)) (u32_range 0 i)"
    by (rule map_cong, simp_all)+
  then show ?thesis
    using assms by (simp add: registry_of_def pool_added_def rg_register_def u32_range_Suc Let_def)
qed

lemma registry_of_upgraded:
  assumes "fk_PoolCount s = Some n" and "i < n" and "fk_Pool s i = Some r"
  shows "registry_of (pool_upgraded i r h w s) = rg_upgrade (unat i) h (registry_of s)"
proof -
  have "map (\<lambda>j. the (((fk_Pool s)(i \<mapsto> r\<lparr>pr_wasm_hash := h\<rparr>)) j)) (u32_range 0 n) =
      (map (\<lambda>j. the (fk_Pool s j)) (u32_range 0 n))[unat i := r\<lparr>pr_wasm_hash := h\<rparr>]"
    using map_u32_range_upd [OF assms(2), of "r\<lparr>pr_wasm_hash := h\<rparr>" "\<lambda>j. the (fk_Pool s j)"]
    by (simp add: if_distrib cong: if_cong)
  moreover have "map (\<lambda>j. the (fk_Pool s j)) (u32_range 0 n) ! unat i = r"
    using assms(2,3) by (simp add: nth_u32_range word_less_nat_alt)
  ultimately show ?thesis
    using assms(1) by (simp add: registry_of_def pool_upgraded_def rg_upgrade_def Let_def)
qed

lemma registry_of_synced:
  assumes "fk_PoolCount s = Some n" and "i < n"
  shows "registry_of (tvl_synced i v s) = rg_sync (unat i) v (registry_of s)"
proof -
  have "map (\<lambda>j. unwrap_or 0 (((fk_PoolTvl s)(i \<mapsto> v)) j)) (u32_range 0 n) =
      (map (\<lambda>j. unwrap_or 0 (fk_PoolTvl s j)) (u32_range 0 n))[unat i := v]"
    using map_u32_range_upd [OF assms(2), of v "\<lambda>j. unwrap_or 0 (fk_PoolTvl s j)"]
    by (simp add: if_distrib cong: if_cong)
  moreover have "map (\<lambda>j. unwrap_or 0 (fk_PoolTvl s j)) (u32_range 0 n) ! unat i = unwrap_or 0 (fk_PoolTvl s i)"
    using assms(2) by (simp add: nth_u32_range word_less_nat_alt)
  ultimately show ?thesis
    using assms by (auto simp: registry_of_def tvl_synced_def rg_sync_def Let_def list_update_id
        word_less_nat_alt dest: sym)
qed

subsection \<open>Rebuilding the registry from the events\<close>

fun index_event :: "registry \<Rightarrow> factory_event \<Rightarrow> registry" where
  "index_event g (PoolCrtd i addr adm asset rate gm mlp daily hash stake) =
     rg_register \<lparr>pr_address = addr, pr_asset = asset, pr_credit_rate = rate, pr_global_multiplier = gm,
       pr_min_lock_period = mlp, pr_daily_rate = daily, pr_wasm_hash = hash\<rparr> g"
| "index_event g (PoolUpg i addr old hash) = rg_upgrade (unat i) hash g"
| "index_event g (TvlSync i old v) = rg_sync (unat i) v g"
| "index_event g (PoolGap i) = g"
| "index_event g (TtlRef a b) = g"
| "index_event g (AdmXfr a b) = g"
| "index_event g (WasmSet a b) = g"
| "index_event g (PauseCr a) = g"
| "index_event g (UnpsCr a) = g"

text \<open>
  A change of the factory that takes nothing back, published by exactly the events from which the
  index follows it.
\<close>

definition logged :: "'w factory \<Rightarrow> 'w factory \<Rightarrow> bool" where
  "logged s t \<longleftrightarrow> rg_extends (registry_of s) (registry_of t) \<and>
     (\<exists>evs. f_events t = f_events s @ evs \<and> registry_of t = foldl index_event (registry_of s) evs)"

lemma logged_idle:
  assumes "core t = u" and "registry_of u = registry_of s" and "f_events u = f_events s @ evs"
    and "foldl index_event (registry_of s) evs = registry_of s"
  shows "logged s t"
  using assms core_get(15) [OF assms(1)] by (auto simp: logged_def registry_of_core [OF assms(1)])

lemma logged_one:
  assumes "rg_extends (registry_of s) (registry_of t)" and "f_events t = f_events s @ [ev]"
    and "registry_of t = index_event (registry_of s) ev"
  shows "logged s t"
  using assms by (auto simp: logged_def intro: exI [of _ "[ev]"])

lemma registry_at:
  assumes "factory_ok s" and "fk_Pool s i = Some r"
  obtains n where "fk_PoolCount s = Some n" "i < n" "rg_pools (registry_of s) ! unat i = r"
    "unat i < length (rg_pools (registry_of s))" "unat i < length (rg_tvls (registry_of s))"
proof -
  from assms(1) obtain n where n: "fk_PoolCount s = Some n" "registry_ok s n" by (auto simp: factory_ok_def)
  with assms(2) have "i < n" by (auto simp: registry_ok_def)
  with n(1) assms(2) show thesis
    by (intro that) (simp_all add: registry_of_def Let_def nth_u32_range word_less_nat_alt)
qed

lemma created_logged:
  assumes "factory_ok s" and "create_pool_inner env adm asset daily gm mlp ms s = Done i t"
  shows "logged s t"
proof -
  from assms obtain m hash addr w where c: "fk_PoolCount s = Some i" "u32_checked_add i 1 = Some m"
    "record_ok (new_record addr asset daily gm mlp hash)"
    and t: "core t = pool_added adm (effective_stake ms) i m (vec_len (asset_ids s i asset @ [i]))
      (new_record addr asset daily gm mlp hash) w (core s)" by (rule create_pool_inner_ok)
  have "registry_of t = rg_register (new_record addr asset daily gm mlp hash) (registry_of s)"
    using c(1,2) by (simp add: registry_of_core [OF t] registry_of_added)
  with core_get(15) [OF t] show ?thesis
    by (intro logged_one [rotated]) ((simp add: pool_added_def new_record_def)+)
qed

lemma upgraded_logged:
  assumes "factory_ok s" and "upgrade_pool_inner env adm i hash s = Done u t"
  shows "logged s t"
proof -
  from assms(2) obtain r w where u: "fk_Pool s i = Some r" "hash \<noteq> pr_wasm_hash r" "hash \<noteq> zero_hash"
    and t: "core t = pool_upgraded i r hash w (core s)" by (rule upgrade_pool_inner_Done)
  from assms(1) u(1) obtain n where at: "fk_PoolCount s = Some n" "i < n" "rg_pools (registry_of s) ! unat i = r"
    "unat i < length (rg_pools (registry_of s))" by (rule registry_at)
  have "registry_of t = rg_upgrade (unat i) hash (registry_of s)"
    using at u(1) by (simp add: registry_of_core [OF t] registry_of_upgraded)
  with core_get(15) [OF t] show ?thesis
    by (intro logged_one [rotated]) ((simp add: pool_upgraded_def Let_def)+)
qed

lemma synced_logged:
  assumes "factory_ok s" and "fk_Pool s i = Some r" and "apply_tvl_sync env i (pr_address r) s = Done v t"
  shows "logged s t"
proof -
  from apply_tvl_sync_Done [OF assms(3)] obtain w where
    t: "core t = tvl_synced i v ((core s)\<lparr>f_world := w\<rparr>)" by blast
  show ?thesis
  proof (cases "v = unwrap_or 0 (fk_PoolTvl s i)")
    case True
    then show ?thesis by (intro logged_idle [OF t, of s "[]"]) (simp_all add: tvl_synced_def)
  next
    case False
    from assms(1,2) obtain n where at: "fk_PoolCount s = Some n" "i < n"
      "unat i < length (rg_tvls (registry_of s))" by (rule registry_at)
    have "registry_of t = rg_sync (unat i) v (registry_of s)"
      using at by (simp add: registry_of_core [OF t] registry_of_synced)
    with core_get(15) [OF t] False show ?thesis
      by (intro logged_one [rotated]) ((simp add: tvl_synced_def Let_def)+)
  qed
qed

text \<open>
  The effects by what they do to the registry: all but three kinds leave it alone and publish none of
  its events.
\<close>

fun registry_event :: "factory_event \<Rightarrow> bool" where
  "registry_event (PoolCrtd i addr adm asset rate gm mlp daily hash stake) = True"
| "registry_event (PoolUpg i addr old new) = True"
| "registry_event (TvlSync i old v) = True"
| "registry_event ev = False"

lemma effect_kinds:
  assumes "factory_ok s" and "f_effect env s t"
  obtains (idle) evs where "fk_PoolCount t = fk_PoolCount s" "fk_Pool t = fk_Pool s" "fk_PoolTvl t = fk_PoolTvl s"
    "fk_TotalTvl t = fk_TotalTvl s" "fk_PoolsByWasmHash t = fk_PoolsByWasmHash s" "f_events t = f_events s @ evs"
    "\<forall>ev \<in> set evs. \<not> registry_event ev"
  | (created) adm asset daily gm mlp ms i where "create_pool_inner env adm asset daily gm mlp ms s = Done i t"
  | (upgraded) adm i hash where "upgrade_pool_inner env adm i hash s = Done () t"
  | (synced) i r v where "fk_Pool s i = Some r" "apply_tvl_sync env i (pr_address r) s = Done v t"
proof -
  have idle': thesis if "core t = u" "fk_PoolCount u = fk_PoolCount s" "fk_Pool u = fk_Pool s" "fk_PoolTvl u = fk_PoolTvl s"
    "fk_TotalTvl u = fk_TotalTvl s" "fk_PoolsByWasmHash u = fk_PoolsByWasmHash s" "f_events u = f_events s @ evs"
    "\<forall>ev \<in> set evs. \<not> registry_event ev" for u evs
    using that core_get [OF that(1)] by (intro idle [of evs]) simp_all
  from assms(2) show thesis
  proof cases
    case (touched w)
    then show ?thesis by (rule idle' [where evs = "[]"]) simp_all
  next
    case (seeded a ids)
    from seeded(3) show ?thesis by (rule idle' [where evs = "[]"]) simp_all
  next
    case (refreshed a b)
    then show ?thesis by (rule idle' [where evs = "[TtlRef a b]"]) simp_all
  next
    case (gap i)
    from gap(2) show ?thesis by (rule idle' [where evs = "[PoolGap i]"]) simp_all
  next
    case (admin_set adm new_admin c)
    from admin_set(5) show ?thesis by (rule idle' [where evs = "[AdmXfr adm new_admin]"]) simp_all
  next
    case (paused adm b)
    from paused(3) show ?thesis by (rule idle' [where evs = "[if b then PauseCr adm else UnpsCr adm]"]) simp_all
  next
    case (wasm_set adm hash old)
    from wasm_set(6) show ?thesis by (rule idle' [where evs = "[WasmSet old hash]"]) simp_all
  qed (blast intro: created upgraded synced)+
qed

lemma index_idle: "\<forall>ev \<in> set evs. \<not> registry_event ev \<Longrightarrow> foldl index_event g evs = g"
proof (induction evs)
  case (Cons ev evs)
  then show ?case by (cases ev) simp_all
qed simp

lemma effect_logged:
  assumes "factory_ok s" and "f_effect env s t"
  shows "logged s t"
  using assms
proof (cases rule: effect_kinds)
  case (idle evs)
  then have "registry_of t = registry_of s" by (simp add: registry_of_def)
  with idle(6) index_idle [OF idle(7), of "registry_of s"] show ?thesis by (auto simp: logged_def)
qed (use assms(1) in \<open>blast intro: created_logged upgraded_logged synced_logged\<close>)+

lemma logged_trans: "logged s t \<Longrightarrow> logged t u \<Longrightarrow> logged s u"
  unfolding logged_def by (metis append_assoc foldl_append rg_extends_trans)

lemma effects_logged:
  assumes "f_effects env s t" and "factory_ok s"
  shows "logged s t"
  using assms
proof (induction rule: rtranclp_induct)
  case base
  show ?case by (simp add: logged_def)
next
  case (step t u)
  with effects_ok [OF step.hyps(1) step.prems] show ?case
    by (blast intro: logged_trans effect_logged)
qed

lemma fresh_registry:
  assumes "factory_fresh s"
  shows "registry_of s = empty_registry" and "f_events s = []"
  using core_get(2,15) [OF assms [unfolded factory_fresh_def]]
  by (simp_all add: registry_of_def empty_registry_def empty_factory_def)

lemma step_logged:
  assumes "factory_inv s" and "factory_step h self s t"
  shows "logged s t"
  using assms(2)
proof cases
  case (fcall env op)
  have "logged s u" if "factory_call op env s = Done v u" for u v
    using assms(1) that
  proof (cases rule: factory_call_cases)
    case (init a hash)
    have "registry_of u = empty_registry"
      unfolding registry_of_core [OF init(5)] by (simp add: initialized_with_def registry_of_def empty_registry_def)
    with init fresh_registry [OF init(2)] core_get(15) [OF init(5)] show ?thesis
      by (simp add: logged_def initialized_with_def)
  next
    case effects
    then show ?thesis by (blast intro: effects_logged)
  qed
  then show ?thesis
    unfolding fcall(1) by (intro invoke_preserves [where P = "logged s"]) (auto simp: logged_def)
qed (auto simp: logged_def)

interpretation factory_log: inductive_invariant factory_fresh "factory_step h self"
  "\<lambda>s. factory_inv s \<and> registry_of s = foldl index_event empty_registry (f_events s)" for h self
proof unfold_locales
  fix s t :: "'a factory"
  assume "factory_inv s \<and> registry_of s = foldl index_event empty_registry (f_events s)" and "factory_step h self s t"
  with step_logged [of s h self t] factory_step_inv show
    "factory_inv t \<and> registry_of t = foldl index_event empty_registry (f_events t)"
    by (auto simp: logged_def)
qed (simp add: factory_inv_def fresh_registry)

interpretation factory_growth: inductive_invariant "\<lambda>s. s = s\<^sub>0 \<and> factory_inv s" "factory_step h self"
  "\<lambda>s. factory_inv s \<and> logged s\<^sub>0 s" for s\<^sub>0 h self
proof unfold_locales
  fix s t :: "'a factory"
  assume "factory_inv s \<and> logged s\<^sub>0 s" and "factory_step h self s t"
  then show "factory_inv t \<and> logged s\<^sub>0 t"
    by (blast intro: factory_step_inv logged_trans step_logged)
qed (auto simp: logged_def)

end
