(* ===== verification/Factory_Guarantees.thy ===== *)
theory Factory_Guarantees
  imports Registry
begin

text \<open>
  Guarantees of the factory that rest on what the contracts around it answer: the sum of the pools'
  values and the addresses of the pools. Both are properties of the registry and of the
  accumulator, so they share the argument that every effect keeps them.
\<close>

subsection \<open>Properties of the registry\<close>

text \<open>
  The contract of a property of the abstract registry and the accumulator \<open>TotalTvl\<close>: it holds of the
  empty registry, and registering a pool that the host deployed, upgrading a pool and folding in a
  value that a pool answered keep it. Then it holds whenever the factory is initialized.
\<close>

locale registry_property =
  fixes h :: "'w host" and self :: address and P :: "registry \<Rightarrow> i128 \<Rightarrow> bool"
  assumes P_empty: "P empty_registry 0"
    and P_register: "P g x \<Longrightarrow> length (rg_pools g) = unat i \<Longrightarrow>
      deploy_v2 h w self (pool_salt i) hash = Some (pr_address r, w') \<Longrightarrow> P (rg_register r g) x"
    and P_upgrade: "P g x \<Longrightarrow> P (rg_upgrade k hash g) x"
    and P_sync: "P g x \<Longrightarrow> k < length (rg_tvls g) \<Longrightarrow> length (rg_tvls g) < 4294967296 \<Longrightarrow>
      try_total_staked h w a = (Some v, w') \<Longrightarrow>
      P (rg_sync k v g) (i128_saturating_sub (i128_saturating_add x v) (rg_tvls g ! k))"
begin

definition holds_in :: "'w factory \<Rightarrow> bool" where
  "holds_in s \<longleftrightarrow> P (registry_of s) (unwrap_or 0 (fk_TotalTvl s))"

lemma holds_frame:
  assumes "core t = u" and "fk_TotalTvl u = fk_TotalTvl s" and "registry_of u = registry_of s" and "holds_in s"
  shows "holds_in t"
  using assms core_get(7) [OF assms(1)] by (simp add: holds_in_def registry_of_core [OF assms(1)])

lemma holds_created:
  assumes "factory_ok s" and "create_pool_inner env adm asset daily gm mlp ms s = Done i t"
    and "host env = h" and "current_contract env = self" and "holds_in s"
  shows "holds_in t"
proof -
  from assms(1,2) obtain m hash addr w where c: "fk_PoolCount s = Some i" "u32_checked_add i 1 = Some m"
    and d: "\<exists>w2 w3. deploy_v2 (host env) w2 (current_contract env) (pool_salt i) hash = Some (addr, w3) \<and>
       pool_initialize (host env) w3 addr (new_init_args adm asset daily gm mlp ms) = Some w"
    and t: "core t = pool_added adm (effective_stake ms) i m (vec_len (asset_ids s i asset @ [i]))
      (new_record addr asset daily gm mlp hash) w (core s)" by (rule create_pool_inner_ok)
  have g: "registry_of t = rg_register (new_record addr asset daily gm mlp hash) (registry_of s)"
    using c by (simp add: registry_of_core [OF t] registry_of_added)
  from d obtain w2 w3 where "deploy_v2 h w2 self (pool_salt i) hash = Some (addr, w3)"
    unfolding assms(3,4) by blast
  moreover have "length (rg_pools (registry_of s)) = unat i"
    using c(1) by (simp add: registry_of_def Let_def)
  ultimately show ?thesis
    using assms(5) core_get(7) [OF t] P_register [where r = "new_record addr asset daily gm mlp hash"]
    by (simp add: holds_in_def g pool_added_def new_record_def)
qed

lemma holds_upgraded:
  assumes "factory_ok s" and "upgrade_pool_inner env adm i hash s = Done u t" and "holds_in s"
  shows "holds_in t"
proof -
  from assms(2) obtain r w where r: "fk_Pool s i = Some r" and t: "core t = pool_upgraded i r hash w (core s)"
    by (rule upgrade_pool_inner_Done)
  from assms(1) r obtain n where "fk_PoolCount s = Some n" "i < n" by (rule registry_at)
  with r have "registry_of t = rg_upgrade (unat i) hash (registry_of s)"
    by (simp add: registry_of_core [OF t] registry_of_upgraded)
  with assms(3) core_get(7) [OF t] show ?thesis
    by (simp add: holds_in_def pool_upgraded_def Let_def P_upgrade)
qed

lemma holds_synced:
  assumes "factory_ok s" and "fk_Pool s i = Some r" and "apply_tvl_sync env i (pr_address r) s = Done v t"
    and "host env = h" and "holds_in s"
  shows "holds_in t"
proof -
  from apply_tvl_sync_Done [OF assms(3)] obtain w where
    call: "try_total_staked h (f_world s) (pr_address r) = (Some v, w)" and
    t: "core t = tvl_synced i v ((core s)\<lparr>f_world := w\<rparr>)" unfolding assms(4) by blast
  from assms(1,2) obtain n where n: "fk_PoolCount s = Some n" "i < n" "unat i < length (rg_tvls (registry_of s))"
    by (rule registry_at)
  have at: "rg_tvls (registry_of s) ! unat i = unwrap_or 0 (fk_PoolTvl s i)"
    and len: "length (rg_tvls (registry_of s)) < 4294967296"
    using n(1,2) unat_u32_less [of n] by (simp_all add: registry_of_def Let_def nth_u32_range word_less_nat_alt)
  show ?thesis
  proof (cases "v = unwrap_or 0 (fk_PoolTvl s i)")
    case True
    then show ?thesis using assms(5) by (intro holds_frame [OF t]) (simp_all add: tvl_synced_def)
  next
    case False
    have "registry_of t = rg_sync (unat i) v (registry_of s)"
      using n by (simp add: registry_of_core [OF t] registry_of_synced)
    with False P_sync [OF _ n(3) len call] assms(5) core_get(7) [OF t] show ?thesis
      by (simp add: holds_in_def at tvl_synced_def Let_def)
  qed
qed

lemma holds_effect:
  assumes "factory_ok s" and "f_effect env s t" and "host env = h" and "current_contract env = self" and "holds_in s"
  shows "holds_in t"
  using assms(1,2)
proof (cases rule: effect_kinds)
  case (idle evs)
  with assms(5) show ?thesis by (simp add: holds_in_def registry_of_def)
next
  case (created adm asset daily gm mlp ms i)
  from holds_created [OF assms(1) created assms(3-5)] show ?thesis .
next
  case (upgraded adm i hash)
  from holds_upgraded [OF assms(1) upgraded assms(5)] show ?thesis .
next
  case (synced i r v)
  from holds_synced [OF assms(1) synced assms(3,5)] show ?thesis .
qed

lemma holds_initialized:
  assumes "factory_fresh s" and "core t = initialized_with a hash (core s)"
  shows "holds_in t"
proof -
  have "fk_TotalTvl t = None"
    using core_get(7) [OF assms(2)] core_get(7) [OF assms(1) [unfolded factory_fresh_def]]
    by (simp add: initialized_with_def empty_factory_def)
  moreover have "registry_of t = empty_registry"
    unfolding registry_of_core [OF assms(2)] by (simp add: initialized_with_def registry_of_def empty_registry_def)
  ultimately show ?thesis using P_empty by (simp add: holds_in_def)
qed

sublocale kept: effect_property h self holds_in
  by unfold_locales (rule holds_initialized, assumption+, rule holds_effect)

lemma reach_holds:
  "reach factory_fresh (factory_step h self) s \<Longrightarrow> factory_ok s \<Longrightarrow> P (registry_of s) (unwrap_or 0 (fk_TotalTvl s))"
  using kept.reach_P [of s] by (simp add: holds_in_def)

end

subsection \<open>The sum of the pools' values\<close>

text \<open>
  A pool's answer is an amount of tokens below \<open>2 ^ 95\<close>; then the sum over fewer than \<open>2 ^ 32\<close> pools
  never saturates.
\<close>

definition tvl_bounded :: "'w host \<Rightarrow> bool" where
  "tvl_bounded h \<longleftrightarrow> (\<forall>w a v w'. try_total_staked h w a = (Some v, w') \<longrightarrow> 0 \<le> v \<and> v < 2 ^ 95)"

lemma tvl_boundedD: "tvl_bounded h \<Longrightarrow> try_total_staked h w a = (Some v, w') \<Longrightarrow> 0 \<le> v \<and> v < 2 ^ 95"
  unfolding tvl_bounded_def by blast

definition tvl_sum :: "registry \<Rightarrow> i128 \<Rightarrow> bool" where
  "tvl_sum g x \<longleftrightarrow> x = sum_list (rg_tvls g) \<and> (\<forall>v \<in> set (rg_tvls g). 0 \<le> v \<and> v < 2 ^ 95)"

lemma sum_list_bounds:
  "\<forall>v \<in> set xs. 0 \<le> v \<and> v < (b :: int) \<Longrightarrow> 0 \<le> sum_list xs \<and> sum_list xs \<le> int (length xs) * (b - 1)"
  by (induction xs) (auto simp: algebra_simps)

lemma sum_list_upd: "i < length xs \<Longrightarrow> sum_list (xs[i := v]) = sum_list xs + v - (xs ! i :: int)"
  by (induction xs arbitrary: i) (auto split: nat.split)

lemma sum_in_i128:
  assumes "\<forall>v \<in> set xs. 0 \<le> v \<and> v < (2 :: int) ^ 95" and "length xs < 4294967296" and "0 \<le> v" and "v < 2 ^ 95"
  shows "in_i128 (sum_list xs + v)"
proof -
  have "int (length xs) * (2 ^ 95 - 1) \<le> 4294967295 * (2 ^ 95 - 1)"
    using assms(2) by (intro mult_right_mono) auto
  with sum_list_bounds [OF assms(1)] assms(3,4) show ?thesis
    unfolding in_i128_def by simp
qed

lemma tvl_sum_sync:
  assumes "tvl_sum g x" and "i < length (rg_tvls g)" and "length (rg_tvls g) < 4294967296" and "0 \<le> v" and "v < 2 ^ 95"
  shows "tvl_sum (rg_sync i v g) (i128_saturating_sub (i128_saturating_add x v) (rg_tvls g ! i))"
proof -
  let ?xs = "rg_tvls g"
  from assms(1) have all: "\<forall>v \<in> set ?xs. 0 \<le> v \<and> v < 2 ^ 95" and x: "x = sum_list ?xs" by (auto simp: tvl_sum_def)
  have all': "\<forall>v \<in> set (?xs[i := v]). 0 \<le> v \<and> v < 2 ^ 95"
    using all assms(4,5) set_update_subset_insert [of ?xs i v] by blast
  note sum = sum_list_upd [OF assms(2), of v]
  have add: "in_i128 (sum_list ?xs + v)"
    by (rule sum_in_i128 [OF all assms(3-5)])
  moreover have "0 \<le> ?xs ! i" using all assms(2) by simp
  ultimately have "in_i128 (sum_list ?xs + v - ?xs ! i)"
    using sum_list_bounds [OF all'] unfolding sum in_i128_def by linarith
  with add all' show ?thesis
    by (simp add: tvl_sum_def rg_sync_def x sum i128_saturating_add_def i128_saturating_sub_def)
qed

interpretation tvl: registry_property h self "\<lambda>g x. tvl_bounded h \<longrightarrow> tvl_sum g x" for h :: "'w host" and self
proof unfold_locales
  fix g x k w a v w'
  assume g: "tvl_bounded h \<longrightarrow> tvl_sum g x" "k < length (rg_tvls g)" "length (rg_tvls g) < 4294967296"
    "try_total_staked h w a = (Some v, w')"
  show "tvl_bounded h \<longrightarrow> tvl_sum (rg_sync k v g) (i128_saturating_sub (i128_saturating_add x v) (rg_tvls g ! k))"
    using g(1) tvl_sum_sync [OF _ g(2,3)] tvl_boundedD [OF _ g(4)] by blast
qed (auto simp: tvl_sum_def empty_registry_def rg_register_def rg_upgrade_def)

subsection \<open>The addresses of the pools\<close>

text \<open>
  A deployment from the factory's address is at an address that the salt determines. Different IDs
  have different salts, so an injective host never gives two pools one address.
\<close>

definition deploys_at :: "'w host \<Rightarrow> address \<Rightarrow> (bytes \<Rightarrow> address) \<Rightarrow> bool" where
  "deploys_at h self address_of \<longleftrightarrow>
     (\<forall>w salt hash a w'. deploy_v2 h w self salt hash = Some (a, w') \<longrightarrow> a = address_of salt)"

definition at_salts :: "(bytes \<Rightarrow> address) \<Rightarrow> registry \<Rightarrow> bool" where
  "at_salts address_of g \<longleftrightarrow>
     (\<forall>i < length (rg_pools g). pr_address (rg_pools g ! i) = address_of (pool_salt (of_nat i)))"

interpretation salts: registry_property h self "\<lambda>g x. deploys_at h self address_of \<longrightarrow> at_salts address_of g"
  for h :: "'w host" and self address_of
proof unfold_locales
  fix g i w hash w' and r :: PoolRecord
  assume "deploys_at h self address_of \<longrightarrow> at_salts address_of g" "length (rg_pools g) = unat (i :: u32)"
    "deploy_v2 h w self (pool_salt i) hash = Some (pr_address r, w')"
  then show "deploys_at h self address_of \<longrightarrow> at_salts address_of (rg_register r g)"
    by (auto simp: deploys_at_def at_salts_def rg_register_def nth_append less_Suc_eq) metis+
qed (auto simp: at_salts_def empty_registry_def rg_upgrade_def rg_sync_def nth_list_update_if)

end
