(* ===== verification/Factory_Demo.thy ===== *)
theory Factory_Demo
  imports Factory_Ttl Factory_Guarantees
begin

text \<open>
  A concrete host and a factory run on it: initialized, then two pools created. The properties of
  the factory are applied to its states.
\<close>

subsection \<open>The host\<close>

text \<open>
  Every address answers as a token; a deployment is at the address spelled by its salt and leaves a
  pool with 500 tokens staked; the pools' administrator is \<open>ADM\<close>.
\<close>

definition fd_addr :: "bytes \<Rightarrow> address" where
  "fd_addr salt = map (\<lambda>b. char_of (unat b)) salt"

definition fd_host :: "(address \<times> i128) list host" where
  "fd_host =
     \<lparr>extend_ttl = extend_ttl_max, min_persistent_ttl = 4096,
      token_balance = (\<lambda>w token holder. None), token_transfer = (\<lambda>w token from to amount. None),
      try_symbol = (\<lambda>w a. (True, w)), try_balance = (\<lambda>w token holder. (Some 0, w)),
      deploy_v2 = (\<lambda>w self salt hash. Some (fd_addr salt, (fd_addr salt, 500) # w)),
      pool_initialize = (\<lambda>w a args. Some w),
      try_total_staked = (\<lambda>w a. (if a \<in> fst ` set w then Some 500 else None, w)), try_is_paused = (\<lambda>w a. (Some False, w)),
      try_pool_admin = (\<lambda>w a. (Some ''ADM'', w)), try_upgrade = (\<lambda>w a hash. (True, w))\<rparr>"

definition fd_env :: "u32 \<Rightarrow> address list \<Rightarrow> (address \<times> i128) list env" where
  "fd_env now signers = \<lparr>host = fd_host, sequence = now, current_contract = ''FAC'',
     authorized = (\<lambda>a. a \<in> set signers)\<rparr>"

definition fd_hash :: bytes where
  "fd_hash = replicate 32 7"

lemma fd_host_simps [simp]:
  "extend_ttl fd_host = extend_ttl_max"
  "try_symbol fd_host w a = (True, w)" "try_balance fd_host w a c = (Some 0, w)"
  "deploy_v2 fd_host w c salt hash = Some (fd_addr salt, (fd_addr salt, 500) # w)"
  "pool_initialize fd_host w a args = Some w"
  "try_total_staked fd_host w a = (if a \<in> fst ` set w then Some 500 else None, w)"
  "try_pool_admin fd_host w a = (Some ''ADM'', w)" "try_upgrade fd_host w a hash = (True, w)"
  "host (fd_env now signers) = fd_host" "current_contract (fd_env now signers) = ''FAC''"
  "authorized (fd_env now signers) = (\<lambda>a. a \<in> set signers)" "sequence (fd_env now signers) = now"
  by (simp_all add: fd_host_def fd_env_def)

lemma fd_hash_nonzero [simp]: "fd_hash \<noteq> zero_hash"
  by (simp add: fd_hash_def zero_hash_def)

lemma fd_addr_inject: "fd_addr x = fd_addr y \<Longrightarrow> x = y"
proof -
  have "inj (\<lambda>b :: byte. char_of (unat b) :: char)"
  proof (rule injI)
    fix a b :: byte
    assume "char_of (unat a) = (char_of (unat b) :: char)"
    then have "of_char (char_of (unat a) :: char) = (of_char (char_of (unat b) :: char) :: nat)" by simp
    then have "unat a mod 256 = unat b mod 256" unfolding of_char_of .
    then show "a = b" using unsigned_less [where ?'a = nat, of a] unsigned_less [where ?'a = nat, of b] by (simp add: word_unat_eq_iff)
  qed
  then show "fd_addr x = fd_addr y \<Longrightarrow> x = y"
    unfolding fd_addr_def by (simp add: inj_map_eq_map)
qed

lemma fd_ttl_host: "ttl_host fd_host"
  by (rule ttl_host_max) simp

lemma fd_tvl_bounded: "tvl_bounded fd_host"
  by (auto simp: tvl_bounded_def split: if_splits)

lemma fd_deploys_at: "deploys_at fd_host ''FAC'' fd_addr"
  by (simp add: deploys_at_def)

subsection \<open>The run\<close>

definition fd_0 :: "(address \<times> i128) list factory" where
  "fd_0 = empty_factory 0 []"

definition fd_1 :: "(address \<times> i128) list factory" where
  "fd_1 = snd (invoke (factory_call (FInitialize ''ADM'' fd_hash) (fd_env 10 [])) fd_0)"

definition fd_2 :: "(address \<times> i128) list factory" where
  "fd_2 = snd (invoke (factory_call (FCreatePool ''XLM'' 17281 2 100 0) (fd_env 20 [''ADM''])) fd_1)"

definition fd_3 :: "(address \<times> i128) list factory" where
  "fd_3 = snd (invoke (factory_call (FCreatePool ''USD'' 40000 1 50 2000000) (fd_env 30 [''ADM''])) fd_2)"

lemma fd_fresh: "factory_fresh fd_0"
  by (simp add: factory_fresh_def fd_0_def empty_factory_def core_def)

lemma fd_reach:
  "reach factory_fresh (factory_step fd_host ''FAC'') fd_1"
  "reach factory_fresh (factory_step fd_host ''FAC'') fd_2"
  "reach factory_fresh (factory_step fd_host ''FAC'') fd_3"
proof -
  have r0: "reach factory_fresh (factory_step fd_host ''FAC'') fd_0"
    by (rule reach_start) (rule fd_fresh)
  show r1: "reach factory_fresh (factory_step fd_host ''FAC'') fd_1"
    using r0 unfolding fd_1_def by (rule reach_step) (rule fcall, simp_all)
  show r2: "reach factory_fresh (factory_step fd_host ''FAC'') fd_2"
    using r1 unfolding fd_2_def by (rule reach_step) (rule fcall, simp_all)
  show "reach factory_fresh (factory_step fd_host ''FAC'') fd_3"
    using r2 unfolding fd_3_def by (rule reach_step) (rule fcall, simp_all)
qed

lemma fd_initialize: "factory_initialize (fd_env 10 []) ''ADM'' fd_hash fd_0 = Done () fd_1"
  by (simp add: fd_1_def fd_0_def factory_initialize_def run_simps empty_factory_def invoke_def zero_address_def)

lemma fd_1_core: "core fd_1 = initialized_with ''ADM'' fd_hash fd_0"
  using factory_initialize_Done [OF fd_initialize] by (simp add: fd_0_def empty_factory_def core_def)

lemma fd_1_ok: "factory_ok fd_1"
  using factory_wf.reach_invariant [OF fd_reach(1)] fd_1_core [THEN core_get(1)]
  by (auto simp: factory_inv_def initialized_with_def dest: fresh_admin)

lemma fd_1_fields [simp]:
  "fk_Admin fd_1 = Some ''ADM''" "fk_PoolCount fd_1 = Some 0" "fk_WasmHash fd_1 = Some fd_hash"
  "fk_PoolCreationPaused fd_1 = None" "fk_AdminTransferCount fd_1 = None" "fk_UpgradeCount fd_1 = None"
  "fk_TotalTvl fd_1 = None" "fk_Pool fd_1 = Map.empty" "fk_AssetPools fd_1 = Map.empty"
  "fk_AssetPoolCount fd_1 = Map.empty" "fk_PoolsByAdmin fd_1 = Map.empty" "fk_PoolsByWasmHash fd_1 = Map.empty"
  "fk_ApprovedWasmHash fd_1 = [fd_hash \<mapsto> True]" "fk_PoolTvl fd_1 = Map.empty" "f_events fd_1 = []"
  "f_world fd_1 = []"
  by (simp_all add: core_get [OF fd_1_core] initialized_with_def fd_0_def empty_factory_def)

lemma fd_params:
  "pool_params_valid ''FAC'' ''ADM'' ''XLM'' 17281 2 100 0"
  "pool_params_valid ''FAC'' ''ADM'' ''USD'' 40000 1 50 2000000"
  by (simp_all add: pool_params_valid_def zero_address_def)

lemma fd_create:
  "create_pool (fd_env 20 [''ADM'']) ''XLM'' 17281 2 100 0 fd_1 = Done 0 fd_2"
proof -
  have "\<exists>t. create_pool (fd_env 20 [''ADM'']) ''XLM'' 17281 2 100 0 fd_1 = Done 0 t"
    using fd_params(1) by (intro create_pool_returns [OF fd_1_ok]) (simp+)
  then show ?thesis
    unfolding fd_2_def by (auto simp: invoke_def run_simps)
qed

definition fd_r1 :: PoolRecord where
  "fd_r1 = new_record (fd_addr (pool_salt 0)) ''XLM'' 17281 2 100 fd_hash"

definition fd_r2 :: PoolRecord where
  "fd_r2 = new_record (fd_addr (pool_salt 1)) ''USD'' 40000 1 50 fd_hash"

lemma fd_2_ok: "factory_ok fd_2"
  using factory_call_ok [of fd_1 "FCreatePool ''XLM'' 17281 2 100 0" "fd_env 20 [''ADM'']"] fd_1_ok fd_create
  by (simp add: factory_inv_def run_simps)

lemma fd_2_core: "core fd_2 = pool_added ''ADM'' 1000000 0 1 1 fd_r1 [(fd_addr (pool_salt 0), 500)] (core fd_1)"
proof -
  from fd_create have "create_pool_inner (fd_env 20 [''ADM'']) ''ADM'' ''XLM'' 17281 2 100 0 fd_1 = Done 0 fd_2"
    by (simp add: create_pool_Done)
  then show ?thesis
    by (rule create_pool_inner_Done) (auto simp: fd_r1_def effective_stake_def MIN_STAKE_AMOUNT_def
      u32_checked_add_def vec_len_def u32_saturating_sub_def)
qed


lemma fd_2_fields [simp]:
  "fk_Admin fd_2 = Some ''ADM''" "fk_PoolCount fd_2 = Some 1" "fk_WasmHash fd_2 = Some fd_hash"
  "fk_PoolCreationPaused fd_2 = None" "fk_AdminTransferCount fd_2 = None" "fk_UpgradeCount fd_2 = None"
  "fk_TotalTvl fd_2 = None" "fk_Pool fd_2 = [0 \<mapsto> fd_r1]" "fk_AssetPools fd_2 = [''XLM'' \<mapsto> [0]]"
  "fk_AssetPoolCount fd_2 = [''XLM'' \<mapsto> 1]" "fk_PoolsByAdmin fd_2 = [''ADM'' \<mapsto> [0]]"
  "fk_PoolsByWasmHash fd_2 = Map.empty" "fk_ApprovedWasmHash fd_2 = [fd_hash \<mapsto> True]"
  "fk_PoolTvl fd_2 = [0 \<mapsto> 0]" "f_world fd_2 = [(fd_addr (pool_salt 0), 500)]"
  by (simp_all add: core_get [OF fd_2_core] pool_added_def fd_r1_def new_record_def)

lemma fd_create2:
  "create_pool (fd_env 30 [''ADM'']) ''USD'' 40000 1 50 2000000 fd_2 = Done 1 fd_3"
proof -
  have "\<exists>t. create_pool (fd_env 30 [''ADM'']) ''USD'' 40000 1 50 2000000 fd_2 = Done 1 t"
    using fd_params(2) by (intro create_pool_returns [OF fd_2_ok]) (simp+)
  then show ?thesis
    unfolding fd_3_def by (auto simp: invoke_def run_simps)
qed

lemma fd_3_ok: "factory_ok fd_3"
  using factory_call_ok [of fd_2 "FCreatePool ''USD'' 40000 1 50 2000000" "fd_env 30 [''ADM'']"] fd_2_ok fd_create2
  by (simp add: factory_inv_def run_simps)

lemma fd_3_core: "core fd_3 = pool_added ''ADM'' 2000000 1 2 1 fd_r2
    [(fd_addr (pool_salt 1), 500), (fd_addr (pool_salt 0), 500)] (core fd_2)"
proof -
  from fd_create2 have "create_pool_inner (fd_env 30 [''ADM'']) ''ADM'' ''USD'' 40000 1 50 2000000 fd_2 = Done 1 fd_3"
    by (simp add: create_pool_Done)
  then show ?thesis
    by (rule create_pool_inner_Done) (auto simp: fd_r2_def effective_stake_def MIN_STAKE_AMOUNT_def
      u32_checked_add_def vec_len_def u32_saturating_sub_def)
qed

lemma fd_3_fields [simp]:
  "fk_Admin fd_3 = Some ''ADM''" "fk_PoolCount fd_3 = Some 2" "fk_WasmHash fd_3 = Some fd_hash"
  "fk_PoolCreationPaused fd_3 = None" "fk_AdminTransferCount fd_3 = None" "fk_UpgradeCount fd_3 = None"
  "fk_TotalTvl fd_3 = None" "fk_Pool fd_3 = [0 \<mapsto> fd_r1, 1 \<mapsto> fd_r2]"
  "fk_AssetPools fd_3 = [''XLM'' \<mapsto> [0], ''USD'' \<mapsto> [1]]"
  "fk_AssetPoolCount fd_3 = [''XLM'' \<mapsto> 1, ''USD'' \<mapsto> 1]" "fk_PoolsByAdmin fd_3 = [''ADM'' \<mapsto> [0, 1]]"
  "fk_PoolsByWasmHash fd_3 = Map.empty" "fk_ApprovedWasmHash fd_3 = [fd_hash \<mapsto> True]"
  "fk_PoolTvl fd_3 = [0 \<mapsto> 0, 1 \<mapsto> 0]"
  "f_world fd_3 = [(fd_addr (pool_salt 1), 500), (fd_addr (pool_salt 0), 500)]"
  by (simp_all add: core_get [OF fd_3_core] pool_added_def fd_r2_def new_record_def)

lemma fd_ids: "u32_range 0 2 = [0, 1]"
  by (simp add: u32_range_def upt_rec)

lemma fd_sync: "\<exists>t. sync_pool_tvl (fd_env 40 []) 0 fd_3 = Done 500 t \<and> fk_TotalTvl t = Some 500 \<and>
    fk_PoolTvl t = [1 \<mapsto> 0, 0 \<mapsto> 500] \<and> fk_PoolCount t = Some 2"
  by (simp add: sync_pool_tvl_def apply_tvl_sync_def query_pool_tvl_def run_simps bump_defs Let_def
      fd_r1_def new_record_def i128_saturating_add_def i128_saturating_sub_def in_i128_def)

end
