(* ===== verification/Factory_Log.thy ===== *)
theory Factory_Log
  imports Registry
begin

text \<open>
  What the events say about the storage. \<open>replay_event\<close> is the whole factory as an indexer keeps it:
  replaying the events on the state that \<open>initialize\<close> left gives every storage entry. The index by code
  hash is characterized by the upgrades that were published.
\<close>

subsection \<open>Replaying the storage from the events\<close>

text \<open>One event, as a change of the storage. Times to live and the outside world are not part of it.\<close>

fun replay_event :: "'w factory \<Rightarrow> factory_event \<Rightarrow> 'w factory" where
  "replay_event s (PoolCrtd i addr adm asset rate gm mlp daily hash stake) =
     s\<lparr>fk_PoolCount := Some (i + 1),
       fk_Pool := (fk_Pool s)(i \<mapsto> \<lparr>pr_address = addr, pr_asset = asset, pr_credit_rate = rate,
         pr_global_multiplier = gm, pr_min_lock_period = mlp, pr_daily_rate = daily, pr_wasm_hash = hash\<rparr>),
       fk_PoolTvl := (fk_PoolTvl s)(i \<mapsto> 0),
       fk_AssetPools := (fk_AssetPools s)(asset \<mapsto> unwrap_or [] (fk_AssetPools s asset) @ [i]),
       fk_AssetPoolCount := (fk_AssetPoolCount s)(asset \<mapsto> vec_len (unwrap_or [] (fk_AssetPools s asset) @ [i])),
       fk_PoolsByAdmin := (fk_PoolsByAdmin s)(adm \<mapsto> unwrap_or [] (fk_PoolsByAdmin s adm) @ [i]),
       f_events := f_events s @ [PoolCrtd i addr adm asset rate gm mlp daily hash stake]\<rparr>"
| "replay_event s (PoolUpg i addr old new) =
     (let m = without_id i old (fk_PoolsByWasmHash s)
      in s\<lparr>fk_Pool := (fk_Pool s)(i \<mapsto> (the (fk_Pool s i))\<lparr>pr_wasm_hash := new\<rparr>),
        fk_PoolsByWasmHash := m(new \<mapsto> unwrap_or [] (m new) @ [i]),
        fk_UpgradeCount := Some (u32_saturating_add (unwrap_or 0 (fk_UpgradeCount s)) 1),
        f_events := f_events s @ [PoolUpg i addr old new]\<rparr>)"
| "replay_event s (TvlSync i old v) =
     s\<lparr>fk_TotalTvl := Some (i128_saturating_sub (i128_saturating_add (unwrap_or 0 (fk_TotalTvl s)) v) old),
       fk_PoolTvl := (fk_PoolTvl s)(i \<mapsto> v), f_events := f_events s @ [TvlSync i old v]\<rparr>"
| "replay_event s (AdmXfr old new) =
     s\<lparr>fk_Admin := Some new, fk_AdminTransferCount := Some (unwrap_or 0 (fk_AdminTransferCount s) + 1),
       f_events := f_events s @ [AdmXfr old new]\<rparr>"
| "replay_event s (WasmSet old new) =
     s\<lparr>fk_WasmHash := Some new, fk_ApprovedWasmHash := (fk_ApprovedWasmHash s)(new \<mapsto> True),
       f_events := f_events s @ [WasmSet old new]\<rparr>"
| "replay_event s (PauseCr a) = s\<lparr>fk_PoolCreationPaused := Some True, f_events := f_events s @ [PauseCr a]\<rparr>"
| "replay_event s (UnpsCr a) = s\<lparr>fk_PoolCreationPaused := Some False, f_events := f_events s @ [UnpsCr a]\<rparr>"
| "replay_event s (PoolGap i) = s\<lparr>f_events := f_events s @ [PoolGap i]\<rparr>"
| "replay_event s (TtlRef i e) = s\<lparr>f_events := f_events s @ [TtlRef i e]\<rparr>"

lemma replay_world: "replay_event (s\<lparr>f_world := w\<rparr>) ev = (replay_event s ev)\<lparr>f_world := w\<rparr>"
  by (cases ev) (simp_all add: Let_def split: option.split)

lemma replay_events_world: "foldl replay_event (s\<lparr>f_world := w\<rparr>) evs = (foldl replay_event s evs)\<lparr>f_world := w\<rparr>"
  by (induction evs arbitrary: s) (simp_all add: replay_world)

text \<open>The events published between two states explain the change of the storage.\<close>

definition replays :: "'w factory \<Rightarrow> 'w factory \<Rightarrow> bool" where
  "replays s t \<longleftrightarrow> (\<exists>evs w. core t = (foldl replay_event (core s) evs)\<lparr>f_world := w\<rparr> \<and> f_events t = f_events s @ evs)"

lemma replays_none:
  assumes "core t = (core s)\<lparr>f_world := w\<rparr>"
  shows "replays s t"
  using assms core_get(15) [OF assms] unfolding replays_def by (intro exI [of _ "[]"] exI [of _ w]) simp

lemma replays_one:
  assumes "core t = (replay_event (core s) ev)\<lparr>f_world := w\<rparr>"
  shows "replays s t"
proof -
  have "f_events (replay_event (core s) ev) = f_events s @ [ev]" by (cases ev) (simp_all add: Let_def)
  with core_get(15) [OF assms] have "f_events t = f_events s @ [ev]" by simp
  moreover have "core t = (foldl replay_event (core s) [ev])\<lparr>f_world := w\<rparr>" using assms by simp
  ultimately show ?thesis unfolding replays_def by blast
qed

lemma replays_created:
  assumes "factory_ok s" and "create_pool_inner env adm asset daily gm mlp ms s = Done i t"
  shows "replays s t"
proof -
  from assms obtain m hash addr w where c: "fk_PoolCount s = Some i" "u32_checked_add i 1 = Some m"
    and t: "core t = pool_added adm (effective_stake ms) i m (vec_len (asset_ids s i asset @ [i]))
      (new_record addr asset daily gm mlp hash) w (core s)" by (rule create_pool_inner_ok)
  from assms(1) c(1) have "indexes_ok s i" by (auto simp: factory_ok_def)
  then have "unwrap_or [] (fk_AssetPools s asset) = asset_ids s i asset" by (simp add: indexes_ok_def)
  with t c(2) show ?thesis
    by (intro replays_one [where ev = "PoolCrtd i addr adm asset (credit_rate_of daily) gm (ucast mlp) daily hash (effective_stake ms)"
          and w = w]) (auto simp: pool_added_def new_record_def dest!: u32_checked_add_1_Some)
qed

lemma replays_upgraded:
  assumes "upgrade_pool_inner env adm i hash s = Done u t"
  shows "replays s t"
  using assms
proof (rule upgrade_pool_inner_Done)
  fix r w1 w2
  assume "fk_Pool s i = Some r" "core t = pool_upgraded i r hash w2 (core s)"
  then show ?thesis
    by (intro replays_one [where ev = "PoolUpg i (pr_address r) (pr_wasm_hash r) hash" and w = w2])
      (simp add: pool_upgraded_def Let_def)
qed

lemma replays_synced:
  assumes "apply_tvl_sync env i a s = Done v t"
  shows "replays s t"
proof -
  from apply_tvl_sync_Done [OF assms] obtain w where
    t: "core t = tvl_synced i v ((core s)\<lparr>f_world := w\<rparr>)" by blast
  show ?thesis
  proof (cases "v = unwrap_or 0 (fk_PoolTvl s i)")
    case True
    with t show ?thesis by (intro replays_none [where w = w]) (simp add: tvl_synced_def)
  next
    case False
    with t show ?thesis
      by (intro replays_one [where ev = "TvlSync i (unwrap_or 0 (fk_PoolTvl s i)) v" and w = w])
        (simp add: tvl_synced_def Let_def)
  qed
qed

lemma effect_replays:
  assumes "factory_ok s" and "f_effect env s t"
  shows "replays s t"
  using assms(2)
proof cases
  case (touched w)
  then show ?thesis by (rule replays_none)
next
  case (refreshed a b)
  then show ?thesis by (intro replays_one [where ev = "TtlRef a b" and w = "f_world s"]) simp
next
  case (gap i)
  then show ?thesis by (intro replays_one [where ev = "PoolGap i" and w = "f_world s"]) simp
next
  case (seeded a ids)
  with assms(1) have False by (auto simp: factory_ok_def indexes_ok_def)
  then show ?thesis ..
next
  case (admin_set adm new_admin c)
  then show ?thesis
    by (intro replays_one [where ev = "AdmXfr adm new_admin" and w = "f_world s"]) (auto dest!: u32_checked_add_1_Some)
next
  case (paused adm b)
  then show ?thesis
    by (intro replays_one [where ev = "if b then PauseCr adm else UnpsCr adm" and w = "f_world s"]) simp
next
  case (wasm_set adm hash old)
  then show ?thesis by (intro replays_one [where ev = "WasmSet old hash" and w = "f_world s"]) simp
qed (use assms(1) in \<open>auto intro: replays_created replays_upgraded replays_synced\<close>)

text \<open>The storage is what the events make of an initialization.\<close>

definition replayed :: "'w factory \<Rightarrow> bool" where
  "replayed s \<longleftrightarrow> (\<exists>a hash. a \<noteq> zero_address \<and> hash \<noteq> zero_hash \<and>
     core s = foldl replay_event (initialized_with a hash (empty_factory 0 (f_world s))) (f_events s))"

lemma initialized_world: "(initialized_with a hash (empty_factory 0 v))\<lparr>f_world := w\<rparr> = initialized_with a hash (empty_factory 0 w)"
  by (simp add: initialized_with_def empty_factory_def)

interpretation replay: effect_property h self replayed for h self
proof unfold_locales
  fix s t :: "'w factory" and a :: address and hash :: bytes
  assume "factory_fresh s" "a \<noteq> zero_address" "hash \<noteq> zero_hash" and t: "core t = initialized_with a hash (core s)"
  then show "replayed t"
    using core_get(15,16) [OF t] by (auto simp: replayed_def factory_fresh_def initialized_with_def empty_factory_def)
next
  fix s t :: "'w factory" and env
  assume "factory_ok s" "f_effect env s t"
  then obtain evs w where t: "core t = (foldl replay_event (core s) evs)\<lparr>f_world := w\<rparr>" "f_events t = f_events s @ evs"
    using effect_replays [of s env t] by (auto simp: replays_def)
  moreover have "f_world t = w" using core_get(16) [OF t(1)] by simp
  moreover assume "replayed s"
  then obtain a hash where "a \<noteq> zero_address" "hash \<noteq> zero_hash"
    "core s = foldl replay_event (initialized_with a hash (empty_factory 0 (f_world s))) (f_events s)"
    by (auto simp: replayed_def)
  ultimately show "replayed t"
    unfolding replayed_def by (intro exI [of _ a] exI [of _ hash])
      (simp add: replay_events_world [symmetric] initialized_world)
qed

subsection \<open>The index by code hash\<close>

text \<open>The pools with an upgrade in a list of events.\<close>

definition upgraded_in :: "factory_event list \<Rightarrow> u32 \<Rightarrow> bool" where
  "upgraded_in evs i \<longleftrightarrow> list_ex (\<lambda>ev. case ev of PoolUpg j addr old new \<Rightarrow> j = i | _ \<Rightarrow> False) evs"

lemma upgraded_in_iff: "upgraded_in evs i \<longleftrightarrow> (\<exists>addr old new. PoolUpg i addr old new \<in> set evs)"
  by (induction evs) (auto simp: upgraded_in_def split: factory_event.splits)

lemma upgraded_in_append [simp]: "upgraded_in (evs @ evs') i \<longleftrightarrow> upgraded_in evs i \<or> upgraded_in evs' i"
  by (simp add: upgraded_in_def)

text \<open>A pool is listed under its current code hash exactly when it was upgraded at least once.\<close>

definition hash_indexed :: "'w factory \<Rightarrow> bool" where
  "hash_indexed s \<longleftrightarrow> (\<forall>i. upgraded_in (f_events s) i \<longrightarrow> fk_Pool s i \<noteq> None) \<and>
     (\<forall>hash i. i \<in> set (unwrap_or [] (fk_PoolsByWasmHash s hash)) \<longleftrightarrow>
        upgraded_in (f_events s) i \<and> (\<exists>r. fk_Pool s i = Some r \<and> pr_wasm_hash r = hash))"

lemma upgraded_in_none: "\<forall>ev \<in> set evs. \<not> registry_event ev \<Longrightarrow> \<not> upgraded_in evs i"
  by (auto simp: upgraded_in_iff)

lemma hash_indexed_frame:
  assumes "fk_Pool t = fk_Pool s" and "fk_PoolsByWasmHash t = fk_PoolsByWasmHash s"
    and "f_events t = f_events s @ evs" and "\<forall>i. \<not> upgraded_in evs i" and "hash_indexed s"
  shows "hash_indexed t"
  using assms by (simp add: hash_indexed_def)

lemma hash_indexed_created:
  assumes "factory_ok s" and "create_pool_inner env adm asset daily gm mlp ms s = Done i t" and "hash_indexed s"
  shows "hash_indexed t"
proof -
  from assms(1,2) obtain m hash addr w where c: "fk_PoolCount s = Some i"
    and t: "core t = pool_added adm (effective_stake ms) i m (vec_len (asset_ids s i asset @ [i]))
      (new_record addr asset daily gm mlp hash) w (core s)" by (rule create_pool_inner_ok)
  from assms(1) c have "fk_Pool s i = None" by (auto simp: factory_ok_def registry_ok_def)
  with assms(3) show ?thesis
    by (auto simp: hash_indexed_def core_get(8,12,15) [OF t] pool_added_def upgraded_in_def)
qed

lemma hash_indexed_upgraded:
  assumes "upgrade_pool_inner env adm i hash s = Done u t" and "hash_indexed s"
  shows "hash_indexed t"
proof -
  from assms(1) obtain r w where r: "fk_Pool s i = Some r" "hash \<noteq> pr_wasm_hash r"
    and t: "core t = pool_upgraded i r hash w (core s)" by (rule upgrade_pool_inner_Done)
  have stale: "i \<notin> set (unwrap_or [] (fk_PoolsByWasmHash s g))" if "g \<noteq> pr_wasm_hash r" for g
    using assms(2) r(1) that by (auto simp: hash_indexed_def)
  have idx: "j \<in> set (unwrap_or [] (fk_PoolsByWasmHash t g)) \<longleftrightarrow>
      (if j = i then g = hash else j \<in> set (unwrap_or [] (fk_PoolsByWasmHash s g)))" for j g
    using r(2) stale [of g] unfolding core_get(12) [OF t]
    by (cases "g = hash"; cases "g = pr_wasm_hash r"; cases "fk_PoolsByWasmHash s g")
      (auto simp: pool_upgraded_def Let_def without_id_simps)
  have ev: "upgraded_in (f_events t) j \<longleftrightarrow> j = i \<or> upgraded_in (f_events s) j" for j
    by (auto simp: core_get(15) [OF t] pool_upgraded_def Let_def upgraded_in_def)
  have pool: "fk_Pool t = (fk_Pool s)(i \<mapsto> r\<lparr>pr_wasm_hash := hash\<rparr>)"
    by (simp add: core_get(8) [OF t] pool_upgraded_def Let_def)
  show ?thesis
    using assms(2) r by (auto simp: hash_indexed_def idx ev pool)
qed

lemma hash_indexed_synced:
  assumes "apply_tvl_sync env i a s = Done v t" and "hash_indexed s"
  shows "hash_indexed t"
proof -
  from apply_tvl_sync_Done [OF assms(1)] obtain w where
    t: "core t = tvl_synced i v ((core s)\<lparr>f_world := w\<rparr>)" by blast
  show ?thesis
    by (rule hash_indexed_frame [where s = s and evs = "if v = unwrap_or 0 (fk_PoolTvl s i) then []
        else [TvlSync i (unwrap_or 0 (fk_PoolTvl s i)) v]"])
      (use assms(2) in \<open>auto simp: core_get(8,12,15) [OF t] tvl_synced_def Let_def upgraded_in_def\<close>)
qed

interpretation hash_index: effect_property h self hash_indexed for h self
proof unfold_locales
  fix s t :: "'w factory" and a :: address and hash :: bytes
  assume "factory_fresh s" and t: "core t = initialized_with a hash (core s)"
  then show "hash_indexed t"
    by (auto simp: factory_fresh_def hash_indexed_def core_get(8,12,15) [OF t] initialized_with_def empty_factory_def upgraded_in_def)
next
  fix s t :: "'w factory" and env
  assume ok: "factory_ok s" and eff: "f_effect env s t" and s: "hash_indexed s"
  from ok eff show "hash_indexed t"
  proof (cases rule: effect_kinds)
    case (idle evs)
    from hash_indexed_frame [OF idle(2,5,6)] upgraded_in_none [OF idle(7)] s show ?thesis by blast
  qed (use ok s in \<open>blast intro: hash_indexed_created hash_indexed_upgraded hash_indexed_synced\<close>)+
qed

end
