(* ===== verification/Factory_Upkeep.thy ===== *)
theory Factory_Upkeep
  imports Factory_Demo Factory_Log
begin

text \<open>
  Operations on existing pools: the sweep that synchronizes values, upgrades, the pause and
  the conversion of rates.
\<close>

subsection \<open>Total value locked\<close>

text \<open>A view of a pool is a query: it does not change the world.\<close>

definition pure_queries :: "'w host \<Rightarrow> bool" where
  "pure_queries h \<longleftrightarrow> (\<forall>w a. snd (try_total_staked h w a) = w)"

definition staked_in :: "'w host \<Rightarrow> 'w \<Rightarrow> address \<Rightarrow> i128 option" where
  "staked_in h w a = fst (try_total_staked h w a)"

text \<open>The value recorded for a pool after a sweep: its answer, or what was recorded when it has none.\<close>

definition swept :: "'w host \<Rightarrow> 'w factory \<Rightarrow> u32 \<Rightarrow> i128" where
  "swept h s i = (case fk_Pool s i of
      None \<Rightarrow> unwrap_or 0 (fk_PoolTvl s i)
    | Some r \<Rightarrow> unwrap_or (unwrap_or 0 (fk_PoolTvl s i)) (staked_in h (f_world s) (pr_address r)))"

lemma sync_one:
  assumes "pure_queries (host env)" and "fk_Pool s i = Some r"
  shows "\<exists>t. ignore_result (apply_tvl_sync env i (pr_address r)) s = Done () t \<and> f_world t = f_world s \<and>
    fk_Pool t = fk_Pool s \<and> fk_PoolCount t = fk_PoolCount s \<and>
    (\<forall>j. unwrap_or 0 (fk_PoolTvl t j) = (if j = i then swept (host env) s i else unwrap_or 0 (fk_PoolTvl s j)))"
proof -
  have w: "snd (try_total_staked (host env) (f_world s) (pr_address r)) = f_world s"
    using assms(1) by (simp add: pure_queries_def)
  then have w': "try_total_staked (host env) (f_world s) (pr_address r) =
      (staked_in (host env) (f_world s) (pr_address r), f_world s)"
    by (metis prod.collapse staked_in_def)
  show ?thesis
    using assms(2) w'
    by (cases "staked_in (host env) (f_world s) (pr_address r)")
      (auto simp: apply_tvl_sync_def query_pool_tvl_def run_simps Let_def bump_defs swept_def)
qed

lemma sync_loop_run:
  assumes "pure_queries (host env)"
  shows "\<exists>t. sync_loop env i e s = Done () t \<and> f_world t = f_world s \<and> fk_Pool t = fk_Pool s \<and>
    fk_PoolCount t = fk_PoolCount s \<and>
    (\<forall>j. unwrap_or 0 (fk_PoolTvl t j) = (if i \<le> j \<and> j < e then swept (host env) s j else unwrap_or 0 (fk_PoolTvl s j)))"
  using assms
proof (induction env i e arbitrary: s rule: sync_loop.induct)
  case (1 env i e)
  show ?case
  proof (cases "i < e")
    case True
    let ?one = "case fk_Pool s i of Some r \<Rightarrow> ignore_result (apply_tvl_sync env i (pr_address r)) | None \<Rightarrow> ok ()"
    have "\<exists>u. ?one s = Done () u \<and> f_world u = f_world s \<and> fk_Pool u = fk_Pool s \<and> fk_PoolCount u = fk_PoolCount s \<and>
        (\<forall>j. unwrap_or 0 (fk_PoolTvl u j) = (if j = i then swept (host env) s i else unwrap_or 0 (fk_PoolTvl s j)))"
      using sync_one [OF 1(2), of s i] by (cases "fk_Pool s i") (auto simp: run_simps swept_def)
    then obtain u where u: "?one s = Done () u" "f_world u = f_world s" "fk_Pool u = fk_Pool s"
      "fk_PoolCount u = fk_PoolCount s"
      "\<And>j. unwrap_or 0 (fk_PoolTvl u j) = (if j = i then swept (host env) s i else unwrap_or 0 (fk_PoolTvl s j))" by blast
    have step: "sync_loop env i e s = sync_loop env (i + 1) e u"
      using True u(1) by (subst sync_loop.simps) (simp add: run_simps)
    from 1(1) [OF True 1(2), of u] obtain t where
      t: "sync_loop env (i + 1) e u = Done () t" "f_world t = f_world u" "fk_Pool t = fk_Pool u"
        "fk_PoolCount t = fk_PoolCount u" "\<And>j. unwrap_or 0 (fk_PoolTvl t j) = (if i + 1 \<le> j \<and> j < e then swept (host env) u j else unwrap_or 0 (fk_PoolTvl u j))"
      by blast
    have range: "i \<le> j \<longleftrightarrow> j = i \<or> i + 1 \<le> j" for j
      using unat_u32_Suc [OF True] by (auto simp: word_le_nat_alt word_unat_eq_iff)
    have "\<not> i + 1 \<le> i" using unat_u32_Suc [OF True] by (simp add: word_le_nat_alt)
    moreover have "swept (host env) u j = swept (host env) s j" if "j \<noteq> i" for j
      using u(2,3) u(5) [of j] that by (simp add: swept_def split: option.split)
    ultimately show ?thesis
      using t u True by (auto simp: step range)
  next
    case False
    then show ?thesis by (subst sync_loop.simps) (auto simp: run_simps)
  qed
qed

text \<open>The window of a sweep ends after at most 50 IDs, or with the registry.\<close>

lemma sync_all_run:
  assumes "factory_ok s" and "fk_PoolCount s = Some n" and "pure_queries (host env)"
  shows "\<exists>e t. sync_all_pool_tvls env start limit s = Done e t \<and>
    unat e = min (unat start + min (unat limit) 50) (unat n) \<and>
    f_world t = f_world s \<and> fk_Pool t = fk_Pool s \<and> fk_PoolCount t = fk_PoolCount s \<and>
    (\<forall>j. unwrap_or 0 (fk_PoolTvl t j) = (if start \<le> j \<and> j < e then swept (host env) s j else unwrap_or 0 (fk_PoolTvl s j)))"
proof -
  let ?e = "min (u32_saturating_add start (min limit MAX_POOL_SCAN_PER_CALL)) n"
  from sync_loop_run [OF assms(3), of start ?e "f_bumped env s"] obtain t where
    t: "sync_loop env start ?e (f_bumped env s) = Done () t" "f_world t = f_world s" "fk_Pool t = fk_Pool s"
      "fk_PoolCount t = fk_PoolCount s"
      "\<And>j. unwrap_or 0 (fk_PoolTvl t j) = (if start \<le> j \<and> j < ?e then swept (host env) (f_bumped env s) j else unwrap_or 0 (fk_PoolTvl s j))"
    by auto
  have "unat ?e = min (unat start + min (unat limit) 50) (unat n)"
    using unat_u32_less [of n] by (auto simp: unat_u32_saturating_add MAX_POOL_SCAN_PER_CALL_def min_def word_le_nat_alt split: if_splits)
  moreover have "swept (host env) (f_bumped env s) j = swept (host env) s j" for j
    by (simp add: swept_def split: option.split)
  ultimately show ?thesis
    using t assms(2) factory_ok_admin [OF assms(1)]
    by (intro exI [of _ ?e] exI [of _ t]) (auto simp: sync_all_pool_tvls_def run_simps Let_def)
qed

text \<open>A keeper that follows the returned IDs: \<open>k\<close> sweeps, each starting where the last one ended.\<close>

fun sync_pages :: "'w env \<Rightarrow> nat \<Rightarrow> u32 \<Rightarrow> u32 \<Rightarrow> ('w, u32) fac" where
  "sync_pages env 0 start limit = ok start"
| "sync_pages env (Suc k) start limit =
     and_then (sync_all_pool_tvls env start limit) (\<lambda>e. sync_pages env k e limit)"

lemma swept_again:
  assumes "f_world t = f_world s" and "fk_Pool t = fk_Pool s" and "unwrap_or 0 (fk_PoolTvl t j) = unwrap_or 0 (fk_PoolTvl s j)"
  shows "swept h t j = swept h s j"
  using assms by (simp add: swept_def split: option.split)

lemma sync_all_reach:
  assumes "reach factory_fresh (factory_step (host env) (current_contract env)) s"
    and "sync_all_pool_tvls env start limit s = Done e t"
  shows "reach factory_fresh (factory_step (host env) (current_contract env)) t"
proof -
  have "t = snd (invoke (factory_call (FSyncAllPoolTvls start limit) env) s)"
    using assms(2) by (simp add: invoke_def run_simps)
  with assms(1) show ?thesis by (simp only:) (rule reach_step, assumption, rule fcall, simp_all)
qed

lemma sync_pages_run:
  assumes "reach factory_fresh (factory_step (host env) (current_contract env)) s" and "fk_PoolCount s = Some n"
    and "pure_queries (host env)" and "start \<le> n" and "unat n \<le> unat start + k * min (unat limit) 50"
  shows "\<exists>t. sync_pages env k start limit s = Done n t \<and>
    reach factory_fresh (factory_step (host env) (current_contract env)) t \<and> fk_PoolCount t = Some n \<and>
    (\<forall>j. unwrap_or 0 (fk_PoolTvl t j) = (if start \<le> j \<and> j < n then swept (host env) s j else unwrap_or 0 (fk_PoolTvl s j)))"
  using assms
proof (induction k arbitrary: start s)
  case 0
  then have "start = n" by (simp add: word_le_nat_alt word_unat_eq_iff)
  with 0 show ?case by (auto simp: run_simps)
next
  case (Suc k)
  have ok: "factory_ok s"
    using factory_wf.reach_invariant [OF Suc.prems(1)] Suc.prems(2) by (rule factory_inv_ok(2))
  from sync_all_run [OF ok Suc.prems(2,3), of start limit] obtain e u where
    u: "sync_all_pool_tvls env start limit s = Done e u" "unat e = min (unat start + min (unat limit) 50) (unat n)"
      "f_world u = f_world s" "fk_Pool u = fk_Pool s" "fk_PoolCount u = Some n"
      "\<And>j. unwrap_or 0 (fk_PoolTvl u j) = (if start \<le> j \<and> j < e then swept (host env) s j else unwrap_or 0 (fk_PoolTvl s j))"
    using Suc.prems(2) by auto
  have e: "start \<le> e" "e \<le> n" "unat n \<le> unat e + k * min (unat limit) 50"
    using u(2) Suc.prems(4,5) by (auto simp: word_le_nat_alt)
  from Suc.IH [OF sync_all_reach [OF Suc.prems(1) u(1)] u(5) Suc.prems(3) e(2,3)] obtain t where
    t: "sync_pages env k e limit u = Done n t"
      "reach factory_fresh (factory_step (host env) (current_contract env)) t" "fk_PoolCount t = Some n"
      "\<And>j. unwrap_or 0 (fk_PoolTvl t j) = (if e \<le> j \<and> j < n then swept (host env) u j else unwrap_or 0 (fk_PoolTvl u j))"
    by blast
  have "swept (host env) u j = swept (host env) s j" if "e \<le> j" for j
    by (rule swept_again) (use u(3,4,6) that in \<open>auto simp: not_less\<close>)
  with t u(1,6) e(1,2) show ?case by (auto simp: run_simps not_le not_less)
qed

text \<open>
  C27. Sweeping the registry makes the total current. \<open>sync_all_pool_tvls\<close> always returns on an
  initialized factory, whatever single pools answer, and a keeper that starts at 0 and follows the
  returned IDs is at \<open>PoolCount\<close> after \<open>k\<close> calls as soon as \<open>k\<close> windows of at most 50 cover the
  registry. Then \<open>total_tvl\<close> returns the sum of the live values of all pools, a pool that does not answer
  counting with the value recorded before.
\<close>

theorem sync_pages_total:
  assumes "reach factory_fresh (factory_step (host env) (current_contract env)) s" and "fk_PoolCount s = Some n"
    and "pure_queries (host env)" and "tvl_bounded (host env)" and "unat n \<le> k * min (unat limit) 50"
  shows "\<exists>t. sync_pages env k 0 limit s = Done n t \<and>
    total_tvl env t = Done (\<Sum>i\<leftarrow>u32_range 0 n.
      case staked_in (host env) (f_world s) (pr_address (the (fk_Pool s i))) of
        Some v \<Rightarrow> v | None \<Rightarrow> unwrap_or 0 (fk_PoolTvl s i)) (f_bumped env t)"
proof -
  have ok: "factory_ok s"
    using factory_wf.reach_invariant [OF assms(1)] assms(2) by (rule factory_inv_ok(2))
  from sync_pages_run [OF assms(1-3), of 0 k limit] assms(5) obtain t where
    t: "sync_pages env k 0 limit s = Done n t" "reach factory_fresh (factory_step (host env) (current_contract env)) t"
      "fk_PoolCount t = Some n"
      "\<And>j. unwrap_or 0 (fk_PoolTvl t j) = (if j < n then swept (host env) s j else unwrap_or 0 (fk_PoolTvl s j))"
    by auto
  have ok': "factory_ok t"
    using factory_wf.reach_invariant [OF t(2)] t(3) by (rule factory_inv_ok(2))
  have "unwrap_or 0 (fk_TotalTvl t) = (\<Sum>i\<leftarrow>u32_range 0 n. unwrap_or 0 (fk_PoolTvl t i))"
    using tvl.reach_holds [OF t(2) ok'] assms(4) t(3) by (simp add: tvl_sum_def registry_of_def Let_def)
  also have "\<dots> = (\<Sum>i\<leftarrow>u32_range 0 n. case staked_in (host env) (f_world s) (pr_address (the (fk_Pool s i))) of
      Some v \<Rightarrow> v | None \<Rightarrow> unwrap_or 0 (fk_PoolTvl s i))"
  proof (rule arg_cong [where f = sum_list], rule map_cong [OF refl])
    fix i
    assume "i \<in> set (u32_range 0 n)"
    then have "i < n" by simp
    then obtain r where "fk_Pool s i = Some r" using registry_count [OF ok assms(2), of i] by auto
    with t(4) [of i] \<open>i < n\<close> show "unwrap_or 0 (fk_PoolTvl t i) =
        (case staked_in (host env) (f_world s) (pr_address (the (fk_Pool s i))) of
          Some v \<Rightarrow> v | None \<Rightarrow> unwrap_or 0 (fk_PoolTvl s i))"
      by (simp add: swept_def split: option.split)
  qed
  finally show ?thesis
    using t(1) factory_ok_admin [OF ok'] by (auto simp: total_tvl_def read_total_tvl_def run_simps)
qed

lemma fd_pure: "pure_queries fd_host"
  by (simp add: pure_queries_def)

theorem sync_pages_total_witness:
  "\<exists>t. sync_pages (fd_env 40 []) 2 0 1 fd_3 = Done 2 t \<and> total_tvl (fd_env 40 []) t = Done 1000 (f_bumped (fd_env 40 []) t)"
  using sync_pages_total [of "fd_env 40 []" fd_3 2 2 1] fd_reach(3) fd_pure fd_tvl_bounded
  by (simp add: fd_ids staked_in_def fd_r1_def fd_r2_def new_record_def)

subsection \<open>Upgrades\<close>

text \<open>The first check of an upgrade that fails, in the order of the code.\<close>

definition upgrade_refusal :: "'w env \<Rightarrow> 'w factory \<Rightarrow> address \<Rightarrow> u32 \<Rightarrow> bytes \<Rightarrow> FactoryError option" where
  "upgrade_refusal env s adm i hash = (case fk_Pool s i of
      None \<Rightarrow> Some PoolNotFound
    | Some r \<Rightarrow> (case try_pool_admin (host env) (f_world s) (pr_address r) of
        (None, w) \<Rightarrow> Some PoolUpgradeFailed
      | (Some a, w) \<Rightarrow>
          if a \<noteq> adm then Some PoolAdminMismatch
          else if hash = pr_wasm_hash r then Some PoolUpgradeFailed
          else if hash = zero_hash then Some InvalidWasmHash
          else if \<not> fst (try_upgrade (host env) w (pr_address r) hash) then Some PoolUpgradeFailed
          else None))"

lemma upgrade_refusal_bumped [simp]:
  "upgrade_refusal env (f_bumped env s) adm i hash = upgrade_refusal env s adm i hash"
  by (simp add: upgrade_refusal_def split: option.split)

lemma upgrade_pool_inner_refused:
  "upgrade_refusal env s adm i hash = Some e \<Longrightarrow> \<exists>t. upgrade_pool_inner env adm i hash s = Fail e t"
  by (auto simp: upgrade_refusal_def upgrade_pool_inner_def run_simps bump_defs split: option.splits prod.splits if_splits)

lemma upgrade_refusal_None:
  assumes "upgrade_refusal env s adm i hash = None"
  obtains r t where "fk_Pool s i = Some r" "upgrade_pool_inner env adm i hash s = Done () t"
proof -
  from assms obtain r w1 where r: "fk_Pool s i = Some r" "try_pool_admin (host env) (f_world s) (pr_address r) = (Some adm, w1)"
    "hash \<noteq> pr_wasm_hash r" "hash \<noteq> zero_hash" "fst (try_upgrade (host env) w1 (pr_address r) hash)"
    by (auto simp: upgrade_refusal_def split: option.splits prod.splits if_splits)
  moreover obtain w2 where "try_upgrade (host env) w1 (pr_address r) hash = (True, w2)"
    using r(5) by (metis (full_types) prod.collapse)
  ultimately show thesis using upgrade_pool_inner_returns [OF r(1-4)] that by blast
qed

text \<open>
  C22. \<open>upgrade_pool\<close> with the admin's authorization fails with the error of the first check that fails
  (unknown pool, a pool that does not answer, another pool admin, the same or the zero hash, a
  refused upgrade); otherwise the pool's record carries the new hash and nothing else of it changes,
  the pool leaves the old hash's index and joins the new one's, the upgrade is counted and published,
  and the factory's own deployment hash stays.
\<close>

theorem upgrade_pool_outcome:
  assumes "factory_ok s" and "fk_Admin s = Some adm" and "authorized env adm"
  shows "case upgrade_refusal env s adm i hash of
      Some e \<Rightarrow> \<exists>t. upgrade_pool env i hash s = Fail e t
    | None \<Rightarrow> \<exists>r t. upgrade_pool env i hash s = Done () t \<and> fk_Pool s i = Some r \<and>
        fk_Pool t = (fk_Pool s)(i \<mapsto> r\<lparr>pr_wasm_hash := hash\<rparr>) \<and> fk_WasmHash t = fk_WasmHash s \<and>
        i \<notin> set (unwrap_or [] (fk_PoolsByWasmHash t (pr_wasm_hash r))) \<and>
        fk_PoolsByWasmHash t hash = Some (unwrap_or [] (fk_PoolsByWasmHash s hash) @ [i]) \<and>
        fk_UpgradeCount t = Some (u32_saturating_add (unwrap_or 0 (fk_UpgradeCount s)) 1) \<and>
        f_events t = f_events s @ [PoolUpg i (pr_address r) (pr_wasm_hash r) hash]"
proof -
  have adm: "adm \<noteq> zero_address" using assms(1,2) by (auto simp: factory_ok_def)
  have run: "upgrade_pool env i hash s = upgrade_pool_inner env adm i hash (f_bumped env s)"
    using adm assms(2,3) by (simp add: upgrade_pool_def run_simps validate_factory_admin_def)
  note same = upgrade_refusal_bumped [of env s adm i hash]
  show ?thesis
  proof (cases "upgrade_refusal env s adm i hash")
    case None
    then have "upgrade_refusal env (f_bumped env s) adm i hash = None" by simp
    then obtain q t where q: "fk_Pool s i = Some q" and t: "upgrade_pool_inner env adm i hash (f_bumped env s) = Done () t"
      by (elim upgrade_refusal_None) simp
    from t obtain r w where r: "fk_Pool s i = Some r" "hash \<noteq> pr_wasm_hash r"
      and c: "core t = pool_upgraded i r hash w (core s)"
      by (elim upgrade_pool_inner_Done) simp
    have "i \<notin> set (unwrap_or [] (fk_PoolsByWasmHash t (pr_wasm_hash r)))"
      using r(2) by (cases "fk_PoolsByWasmHash s (pr_wasm_hash r)")
        (auto simp: core_get(12) [OF c] pool_upgraded_def Let_def without_id_simps)
    moreover have "fk_PoolsByWasmHash t hash = Some (unwrap_or [] (fk_PoolsByWasmHash s hash) @ [i])"
      using r(2) by (simp add: core_get(12) [OF c] pool_upgraded_def Let_def without_id_simps)
    ultimately show ?thesis
      using None t r(1) core_get [OF c] by (auto simp: run pool_upgraded_def Let_def)
  next
    case (Some e)
    with same upgrade_pool_inner_refused [of env "f_bumped env s" adm i hash e] show ?thesis
      by (simp add: run)
  qed
qed

theorem upgrade_pool_outcome_witness:
  "\<exists>t. upgrade_pool (fd_env 40 [''ADM'']) 0 (replicate 32 9) fd_3 = Done () t \<and>
     fk_PoolsByWasmHash t (replicate 32 9) = Some [0]"
proof -
  have "upgrade_refusal (fd_env 40 [''ADM'']) fd_3 ''ADM'' 0 (replicate 32 9) = None"
    by (simp add: upgrade_refusal_def fd_r1_def new_record_def fd_hash_def zero_hash_def)
  then show ?thesis
    using upgrade_pool_outcome [OF fd_3_ok fd_3_fields(1), of "fd_env 40 [''ADM'']" 0 "replicate 32 9"]
    by auto
qed

subsubsection \<open>Batches\<close>

text \<open>The pools \<open>ids\<close> of \<open>s\<close> now run \<open>hash\<close>, each upgraded once, in this order.\<close>

definition recoded :: "u32 list \<Rightarrow> bytes \<Rightarrow> 'w factory \<Rightarrow> 'w factory \<Rightarrow> bool" where
  "recoded ids hash s t \<longleftrightarrow> distinct ids \<and>
     (\<forall>i \<in> set ids. \<exists>r. fk_Pool s i = Some r \<and> pr_wasm_hash r \<noteq> hash) \<and> (ids \<noteq> [] \<longrightarrow> hash \<noteq> zero_hash) \<and>
     (\<forall>i. fk_Pool t i = (if i \<in> set ids then map_option (\<lambda>r. r\<lparr>pr_wasm_hash := hash\<rparr>) (fk_Pool s i) else fk_Pool s i)) \<and>
     unwrap_or [] (fk_PoolsByWasmHash t hash) = unwrap_or [] (fk_PoolsByWasmHash s hash) @ ids \<and>
     unat (unwrap_or 0 (fk_UpgradeCount t)) = min (unat (unwrap_or 0 (fk_UpgradeCount s)) + length ids) 4294967295 \<and>
     f_events t = f_events s @ map (\<lambda>i. PoolUpg i (pr_address (the (fk_Pool s i))) (pr_wasm_hash (the (fk_Pool s i))) hash) ids \<and>
     fk_PoolCount t = fk_PoolCount s \<and> fk_Admin t = fk_Admin s \<and> fk_WasmHash t = fk_WasmHash s"

lemma recoded_Nil: "recoded [] hash s s"
  using unat_u32_less [of "unwrap_or 0 (fk_UpgradeCount s)"] by (simp add: recoded_def)

lemma upgrade_recoded:
  assumes "upgrade_pool_inner env adm i hash s = Done u t"
  shows "recoded [i] hash s t"
  using assms
proof (rule upgrade_pool_inner_Done)
  fix r w1 w2
  assume r: "fk_Pool s i = Some r" "hash \<noteq> pr_wasm_hash r" "hash \<noteq> zero_hash" and c: "core t = pool_upgraded i r hash w2 (core s)"
  have "fk_PoolsByWasmHash t hash = Some (unwrap_or [] (fk_PoolsByWasmHash s hash) @ [i])"
    using r(2) by (simp add: core_get(12) [OF c] pool_upgraded_def Let_def without_id_simps)
  then show ?thesis
    using r core_get [OF c] by (simp add: recoded_def pool_upgraded_def Let_def unat_u32_saturating_add)
qed

lemma recoded_Cons:
  assumes "recoded [i] hash s u" and "recoded ids hash u t"
  shows "recoded (i # ids) hash s t"
proof -
  from assms(1) obtain r where r: "fk_Pool s i = Some r" "pr_wasm_hash r \<noteq> hash"
    and u: "fk_Pool u = (fk_Pool s)(i \<mapsto> r\<lparr>pr_wasm_hash := hash\<rparr>)" by (auto simp: recoded_def fun_eq_iff)
  have "i \<notin> set ids"
  proof
    assume "i \<in> set ids"
    with assms(2) obtain q where "fk_Pool u i = Some q" "pr_wasm_hash q \<noteq> hash" unfolding recoded_def by blast
    with u show False by auto
  qed
  then have same: "fk_Pool u j = fk_Pool s j" if "j \<in> set ids" for j using that u by auto
  then have "map (\<lambda>j. PoolUpg j (pr_address (the (fk_Pool u j))) (pr_wasm_hash (the (fk_Pool u j))) hash) ids =
      map (\<lambda>j. PoolUpg j (pr_address (the (fk_Pool s j))) (pr_wasm_hash (the (fk_Pool s j))) hash) ids" by auto
  moreover have "\<exists>q. fk_Pool s j = Some q \<and> pr_wasm_hash q \<noteq> hash" if "j \<in> set ids" for j
    using assms(2) that same [OF that] unfolding recoded_def by metis
  moreover have "fk_Pool t j = (if j = i \<or> j \<in> set ids then map_option (\<lambda>r. r\<lparr>pr_wasm_hash := hash\<rparr>) (fk_Pool s j)
      else fk_Pool s j)" for j
    using assms(2) r(1) u \<open>i \<notin> set ids\<close> same [of j] unfolding recoded_def by auto
  ultimately show ?thesis
    using assms r \<open>i \<notin> set ids\<close> by (simp add: recoded_def)
qed

lemma upgrade_loop_recoded:
  "for_each ids () (\<lambda>i _. upgrade_pool_inner env adm i hash) s = Done u t \<Longrightarrow> recoded ids hash s t"
proof (induction ids arbitrary: s)
  case Nil
  then show ?case by (simp add: run_iffs recoded_Nil)
next
  case (Cons i ids)
  then show ?case by (auto simp: run_iffs intro: recoded_Cons upgrade_recoded)
qed

lemma upgrade_pool_inner_total:
  "case upgrade_refusal env s adm i hash of
     None \<Rightarrow> \<exists>t. upgrade_pool_inner env adm i hash s = Done () t
   | Some e \<Rightarrow> \<exists>t. upgrade_pool_inner env adm i hash s = Fail e t"
  by (auto split: option.split intro: upgrade_pool_inner_refused elim: upgrade_refusal_None)

lemma upgrade_loop_refused:
  "case for_each ids () (\<lambda>i _. upgrade_pool_inner env adm i hash) s of
     Done _ t \<Rightarrow> True
   | Fail e t \<Rightarrow> \<exists>k u. k < length ids \<and>
       for_each (take k ids) () (\<lambda>i _. upgrade_pool_inner env adm i hash) s = Done () u \<and>
       upgrade_refusal env u adm (ids ! k) hash = Some e
   | Trap \<Rightarrow> False"
proof (induction ids arbitrary: s)
  case Nil
  show ?case by (simp add: run_simps)
next
  case (Cons i ids)
  show ?case
  proof (cases "upgrade_refusal env s adm i hash")
    case None
    with upgrade_pool_inner_total [where env = env and s = s and adm = adm and i = i and hash = hash] obtain u where
      u: "upgrade_pool_inner env adm i hash s = Done () u" by auto
    from Cons [of u] show ?thesis
    proof (cases "for_each ids () (\<lambda>i _. upgrade_pool_inner env adm i hash) u")
      case (Fail e t)
      with Cons [of u] obtain k v where "k < length ids"
        "for_each (take k ids) () (\<lambda>i _. upgrade_pool_inner env adm i hash) u = Done () v"
        "upgrade_refusal env v adm (ids ! k) hash = Some e" by auto
      with Fail u show ?thesis by (auto simp: run_simps intro!: exI [of _ "Suc k"])
    qed (use u in \<open>simp_all add: run_simps\<close>)
  next
    case (Some e)
    with upgrade_pool_inner_total [where env = env and s = s and adm = adm and i = i and hash = hash] obtain t where
      "upgrade_pool_inner env adm i hash s = Fail e t" by auto
    with Some show ?thesis by (auto simp: run_simps intro!: exI [of _ 0])
  qed
qed

text \<open>
  C35. \<open>upgrade_pools_batch\<close> with the admin's authorization is all or nothing. When it returns, the list
  has no duplicates, every listed pool ran other code before and runs the new code now, every other record is as
  it was, the index, the counter and the events record the pools in the order of the list. Otherwise it
  fails with the refusal of the first pool that cannot be upgraded after the ones before it, and the
  invocation leaves no trace. It never traps, and an empty list succeeds.
\<close>

theorem upgrade_pools_batch_outcome:
  assumes "factory_ok s" and "fk_Admin s = Some adm" and "authorized env adm"
  shows "case upgrade_pools_batch env ids hash s of
      Done _ t \<Rightarrow> distinct ids \<and>
        (\<forall>i. fk_Pool t i = (if i \<in> set ids then map_option (\<lambda>r. r\<lparr>pr_wasm_hash := hash\<rparr>) (fk_Pool s i) else fk_Pool s i)) \<and>
        (\<forall>i \<in> set ids. \<exists>r. fk_Pool s i = Some r \<and> pr_wasm_hash r \<noteq> hash) \<and>
        unwrap_or [] (fk_PoolsByWasmHash t hash) = unwrap_or [] (fk_PoolsByWasmHash s hash) @ ids \<and>
        unat (unwrap_or 0 (fk_UpgradeCount t)) = min (unat (unwrap_or 0 (fk_UpgradeCount s)) + length ids) 4294967295 \<and>
        f_events t = f_events s @ map (\<lambda>i. PoolUpg i (pr_address (the (fk_Pool s i))) (pr_wasm_hash (the (fk_Pool s i))) hash) ids
    | Fail e t \<Rightarrow> snd (invoke (upgrade_pools_batch env ids hash) s) = s \<and>
        (\<exists>k u. k < length ids \<and> upgrade_pools_batch env (take k ids) hash s = Done () u \<and>
          upgrade_refusal env u adm (ids ! k) hash = Some e)
    | Trap \<Rightarrow> False"
proof -
  have "adm \<noteq> zero_address" using assms(1,2) by (auto simp: factory_ok_def)
  then have run: "upgrade_pools_batch env js hash s =
      for_each js () (\<lambda>i _. upgrade_pool_inner env adm i hash) (f_bumped env s)" for js
    using assms(2,3) by (simp add: upgrade_pools_batch_def run_simps validate_factory_admin_def)
  from upgrade_loop_refused [of ids env adm hash "f_bumped env s"] show ?thesis
  proof (cases "upgrade_pools_batch env ids hash s")
    case (Done u t)
    then have "recoded ids hash (f_bumped env s) t" unfolding run by (rule upgrade_loop_recoded)
    then show ?thesis by (simp add: Done recoded_def)
  next
    case (Fail e t)
    with upgrade_loop_refused [of ids env adm hash "f_bumped env s"] show ?thesis
      by (simp add: invoke_def run)
  next
    case Trap
    with upgrade_loop_refused [of ids env adm hash "f_bumped env s"] show ?thesis
      by (simp add: run)
  qed
qed

theorem upgrade_pools_batch_outcome_witness:
  "\<exists>t. upgrade_pools_batch (fd_env 40 [''ADM'']) [0, 1] (replicate 32 9) fd_3 = Done () t \<and>
     unwrap_or [] (fk_PoolsByWasmHash t (replicate 32 9)) = [0, 1]"
proof -
  let ?env = "fd_env 40 [''ADM'']"
  have ne: "replicate 32 9 \<noteq> zero_hash" "replicate 32 9 \<noteq> pr_wasm_hash fd_r1" "replicate 32 9 \<noteq> pr_wasm_hash fd_r2"
    by (simp_all add: zero_hash_def fd_r1_def fd_r2_def new_record_def fd_hash_def)
  have "\<not> (\<exists>e t. upgrade_pools_batch ?env [0, 1] (replicate 32 9) fd_3 = Fail e t)"
  proof
    assume "\<exists>e t. upgrade_pools_batch ?env [0, 1] (replicate 32 9) fd_3 = Fail e t"
    then obtain e t where "upgrade_pools_batch ?env [0, 1] (replicate 32 9) fd_3 = Fail e t" by blast
    with upgrade_pools_batch_outcome [OF fd_3_ok fd_3_fields(1), of ?env "[0, 1]" "replicate 32 9"]
    obtain k u where k: "k < Suc (Suc 0)" "upgrade_pools_batch ?env (take k [0, 1]) (replicate 32 9) fd_3 = Done () u"
      "upgrade_refusal ?env u ''ADM'' ([0, 1] ! k) (replicate 32 9) = Some e" by auto
    with upgrade_pools_batch_outcome [OF fd_3_ok fd_3_fields(1), of ?env "take k [0, 1]" "replicate 32 9"] ne
    show False by (auto simp: less_Suc_eq upgrade_refusal_def)
  qed
  with upgrade_pools_batch_outcome [OF fd_3_ok fd_3_fields(1), of ?env "[0, 1]" "replicate 32 9"] show ?thesis
    by (auto split: outcome.splits)
qed

text \<open>
  C25. \<open>PoolsByWasmHash\<close> is exactly the index of the upgraded pools: in every reachable state the list of
  a hash has no duplicates and contains a pool if and only if the pool's record carries the hash and an
  upgrade of the pool was published. A pool that still runs the code it was created with is in no list.
\<close>

theorem hash_index_exact:
  assumes "reach factory_fresh (factory_step h self) s"
  shows "distinct (unwrap_or [] (fk_PoolsByWasmHash s hash)) \<and>
    (i \<in> set (unwrap_or [] (fk_PoolsByWasmHash s hash)) \<longleftrightarrow>
      (\<exists>r addr old new. fk_Pool s i = Some r \<and> pr_wasm_hash r = hash \<and> PoolUpg i addr old new \<in> set (f_events s)))"
proof (cases "factory_ok s")
  case True
  then have "wasm_index_ok s" by (auto simp: factory_ok_def)
  then have "distinct (unwrap_or [] (fk_PoolsByWasmHash s hash))"
    by (cases "fk_PoolsByWasmHash s hash") (simp_all add: wasm_index_ok_def)
  with hash_index.reach_P [OF assms True] show ?thesis
    unfolding hash_indexed_def upgraded_in_iff by blast
next
  case False
  with factory_wf.reach_invariant [OF assms] have "core s = empty_factory 0 (f_world s)"
    by (simp add: factory_inv_def factory_fresh_def)
  from core_get(8,12) [OF this] show ?thesis by (simp add: empty_factory_def)
qed

theorem hash_index_exact_witness:
  "\<exists>t. upgrade_pool (fd_env 40 [''ADM'']) 0 (replicate 32 9) fd_3 = Done () t \<and>
     0 \<in> set (unwrap_or [] (fk_PoolsByWasmHash t (replicate 32 9)))"
proof -
  let ?env = "fd_env 40 [''ADM'']"
  have "upgrade_refusal ?env (f_bumped ?env fd_3) ''ADM'' 0 (replicate 32 9) = None"
    by (simp add: upgrade_refusal_def fd_r1_def new_record_def fd_hash_def zero_hash_def)
  then obtain t where t: "upgrade_pool_inner ?env ''ADM'' 0 (replicate 32 9) (f_bumped ?env fd_3) = Done () t"
    by (rule upgrade_refusal_None)
  then have run: "upgrade_pool ?env 0 (replicate 32 9) fd_3 = Done () t"
    by (simp add: upgrade_pool_def run_simps validate_factory_admin_def zero_address_def)
  have "t = snd (invoke (factory_call (FUpgradePool 0 (replicate 32 9)) ?env) fd_3)"
    using run by (simp add: invoke_def run_simps)
  then have "reach factory_fresh (factory_step fd_host ''FAC'') t"
    by (simp only:) (rule reach_step [OF fd_reach(3)], rule fcall, simp_all)
  from hash_index_exact [OF this, of "replicate 32 9" 0] upgrade_recoded [OF t] run show ?thesis
    by (auto simp: recoded_def)
qed

text \<open>
  Two gaps between the storage keys' documentation and the code, on a reachable factory: an
  upgrade to a hash that no admin approved succeeds (\<open>ApprovedWasmHash\<close> is never read), and pools
  that run the deployment hash since their creation are in no \<open>PoolsByWasmHash\<close> list.
\<close>

lemma wasm_hash_gaps:
  "\<exists>h self env s t r hash. reach factory_fresh (factory_step h self) (s :: (address \<times> i128) list factory) \<and>
     host env = h \<and> fk_ApprovedWasmHash s hash = None \<and> upgrade_pool env 0 hash s = Done () t \<and>
     fk_Pool s 1 = Some r \<and> 1 \<notin> set (unwrap_or [] (fk_PoolsByWasmHash s (pr_wasm_hash r)))"
proof -
  have "upgrade_refusal (fd_env 40 [''ADM'']) fd_3 ''ADM'' 0 (replicate 32 9) = None"
    by (simp add: upgrade_refusal_def fd_r1_def new_record_def fd_hash_def zero_hash_def)
  then have "upgrade_refusal (fd_env 40 [''ADM'']) (f_bumped (fd_env 40 [''ADM'']) fd_3) ''ADM'' 0 (replicate 32 9) = None" by simp
  then obtain t where "upgrade_pool (fd_env 40 [''ADM'']) 0 (replicate 32 9) fd_3 = Done () t"
    by (rule upgrade_refusal_None) (simp add: upgrade_pool_def run_simps validate_factory_admin_def zero_address_def)
  moreover have "fk_ApprovedWasmHash fd_3 (replicate 32 9) = None"
    by (simp add: fd_hash_def)
  moreover have "fk_Pool fd_3 1 = Some fd_r2 \<and> 1 \<notin> set (unwrap_or [] (fk_PoolsByWasmHash fd_3 (pr_wasm_hash fd_r2)))"
    by simp
  ultimately show ?thesis using fd_reach(3) fd_host_simps(9) by blast
qed

subsection \<open>The pause\<close>

text \<open>A paused factory stays paused and gets no pool.\<close>

definition halted :: "'w factory \<Rightarrow> 'w factory \<Rightarrow> bool" where
  "halted s t \<longleftrightarrow> (unwrap_or False (fk_PoolCreationPaused s) \<longrightarrow>
     unwrap_or False (fk_PoolCreationPaused t) \<and> fk_PoolCount t = fk_PoolCount s \<and>
     (\<forall>i. fk_Pool s i = None \<longrightarrow> fk_Pool t i = None))"

interpretation halt: frame_relation halted
  by unfold_locales (auto simp: halted_def)

lemma halted_same:
  "fk_PoolCreationPaused t = fk_PoolCreationPaused s \<Longrightarrow> fk_PoolCount t = fk_PoolCount s \<Longrightarrow>
    (\<And>i. fk_Pool s i = None \<Longrightarrow> fk_Pool t i = None) \<Longrightarrow> halted s t"
  by (simp add: halted_def)

lemma halt_prims:
  "keeps halted (f_extend env k)" "keeps halted (f_bump_instance env)" "keeps halted (f_publish ev)"
  "keeps halted (f_call c)" "keeps halted f_require_initialized" "keeps halted load_admin"
  "keeps halted load_wasm_hash" "keeps halted read_upgrade_count" "keeps halted read_admin_transfer_count"
  "keeps halted read_total_tvl" "keeps halted (read_pool_tvl i)" "keeps halted (require_auth env a)"
  by (rule keepsI, auto simp: run_iffs intro!: halted_same)+

lemma halt_writes:
  "keeps halted (modify (\<lambda>s. s\<lparr>fk_Admin := x1\<rparr>))" "keeps halted (modify (\<lambda>s. s\<lparr>fk_WasmHash := x3\<rparr>))"
  "keeps halted (modify (\<lambda>s. s\<lparr>fk_AdminTransferCount := x5\<rparr>))" "keeps halted (modify (\<lambda>s. s\<lparr>fk_UpgradeCount := x6\<rparr>))"
  "keeps halted (modify (\<lambda>s. s\<lparr>fk_TotalTvl := x7\<rparr>))"
  "keeps halted (f_put env k (\<lambda>s. s\<lparr>fk_PoolTvl := (fk_PoolTvl s)(i \<mapsto> v)\<rparr>))"
  "keeps halted (f_put env k (\<lambda>s. s\<lparr>fk_AssetPoolCount := (fk_AssetPoolCount s)(a \<mapsto> c)\<rparr>))"
  "keeps halted (f_put env k (\<lambda>s. s\<lparr>fk_ApprovedWasmHash := (fk_ApprovedWasmHash s)(h \<mapsto> b)\<rparr>))"
  by (rule keepsI, auto simp: run_iffs intro!: halted_same)+

lemma halt_inner: "keeps halted (create_pool_inner env adm asset d g l m)" "keeps halted (upgrade_pool_inner env adm i h)"
proof -
  show "keeps halted (create_pool_inner env adm asset d g l m)"
    by (rule keepsI, erule create_pool_inner_Done) (simp add: halted_def)
  show "keeps halted (upgrade_pool_inner env adm i h)"
  proof (rule keepsI)
    fix s u t
    assume "upgrade_pool_inner env adm i h s = Done u t"
    then obtain r w where r: "fk_Pool s i = Some r" and c: "core t = pool_upgraded i r h w (core s)"
      by (rule upgrade_pool_inner_Done)
    show "halted s t" by (rule halted_same) (use r in \<open>auto simp: core_get(2,4,8) [OF c] pool_upgraded_def Let_def\<close>)
  qed
qed

lemmas halt_rules = halt.keeps_rules halt_prims halt_writes

lemma halt_sync: "keeps halted (apply_tvl_sync env i a)" "keeps halted (ignore_result (apply_tvl_sync env i a))"
proof -
  show sync: "keeps halted (apply_tvl_sync env i a)"
    by (auto simp: apply_tvl_sync_def query_pool_tvl_def bump_defs Let_def intro!: halt_rules)
  show "keeps halted (ignore_result (apply_tvl_sync env i a))"
    by (rule halt.keeps_ignore [OF sync]) (auto elim!: apply_tvl_sync_Fail intro!: halted_same)
qed

lemma halt_sync_loop: "keeps halted (sync_loop env i e)"
proof (induction env i e rule: sync_loop.induct)
  case (1 env i e)
  then show ?case by (subst sync_loop.simps) (auto intro!: halt_rules halt_sync)
qed

lemma halt_scans:
  "keeps halted (scan_asset_index env i e l ids rs n)" "keeps halted (scan_registry env a l ids rs n)"
  by (induction ids arbitrary: rs) (auto simp: bump_defs intro!: halt_rules)

lemma halt_factory_call:
  assumes "op \<noteq> FUnpausePoolCreation" and "op \<noteq> FPausePoolCreation" and "\<not> is_finitialize op"
  shows "keeps halted (factory_call op env)"
  using assms by (cases op) (simp_all only: factory_call.simps factory_entry_defs bump_defs Let_def returns_def
      validate_factory_admin_def publish_pool_gap_def query_pool_tvl_def increment_admin_transfer_count_def
      is_finitialize.simps simp_thms,
    (intro halt_rules halt_inner halt_sync halt_sync_loop halt_scans)+)

lemma effect_admin:
  assumes "f_effect env s t" and "fk_Admin s \<noteq> None"
  shows "fk_Admin t \<noteq> None"
  using assms(1)
proof cases
  case (synced i r v)
  from apply_tvl_sync_Done [OF synced(2)] obtain w where
    t: "core t = tvl_synced i v ((core s)\<lparr>f_world := w\<rparr>)" by blast
  from core_get(1) [OF t] assms(2) show ?thesis by (simp add: tvl_synced_def Let_def)
qed (use assms(2) in \<open>auto simp: create_pool_inner_admin upgrade_pool_inner_admin dest!: core_get(1)\<close>)

lemma effects_admin: "f_effects env s t \<Longrightarrow> fk_Admin s \<noteq> None \<Longrightarrow> fk_Admin t \<noteq> None"
proof (induction rule: rtranclp_induct)
  case (step t u)
  then show ?case using effect_admin [OF step.hyps(2)] by simp
qed

text \<open>
  C28. The pause is complete: on a paused factory no successful call other than \<open>unpause_pool_creation\<close>
  lifts the pause or registers a pool, by \<open>create_pool\<close>, in a batch or otherwise.
\<close>

theorem pause_stops_creation:
  assumes "fk_Admin s = Some adm" and "fk_PoolCreationPaused s = Some True"
    and "op \<noteq> FUnpausePoolCreation" and "factory_call op env s = Done v t"
  shows "fk_PoolCount t = fk_PoolCount s \<and> (\<forall>i. fk_Pool s i = None \<longrightarrow> fk_Pool t i = None) \<and>
    is_pool_creation_paused env t = Done True (f_bumped env t)"
proof -
  have "halted s t"
  proof (cases "op = FPausePoolCreation \<or> is_finitialize op")
    case True
    with assms(1,4) show ?thesis
      by (cases op) (auto simp: run_iffs factory_initialize_def pause_pool_creation_def halted_def)
  next
    case False
    with halt_factory_call [OF assms(3), of env] assms(4) show ?thesis by (blast dest: keepsD)
  qed
  moreover have "fk_Admin t \<noteq> None"
    using assms(1) by (intro effects_admin [OF factory_call_effects [OF _ assms(4)]]) simp_all
  ultimately show ?thesis
    using assms(2) by (auto simp: halted_def is_pool_creation_paused_def run_simps)
qed

theorem pause_stops_creation_witness:
  "\<exists>s t. fk_PoolCreationPaused s = Some True \<and> factory_call (FSyncPoolTvl 0) (fd_env 40 []) s = Done (RAmount 500) t \<and>
     fk_PoolCount t = Some (2 :: u32)"
proof -
  let ?s = "fd_3\<lparr>fk_PoolCreationPaused := Some True\<rparr>"
  have "\<exists>t. factory_call (FSyncPoolTvl 0) (fd_env 40 []) ?s = Done (RAmount 500) t"
    by (simp add: sync_pool_tvl_def apply_tvl_sync_def query_pool_tvl_def run_simps bump_defs Let_def
      fd_r1_def new_record_def)
  then obtain t where t: "factory_call (FSyncPoolTvl 0) (fd_env 40 []) ?s = Done (RAmount 500) t" by blast
  have "fk_PoolCount t = fk_PoolCount ?s"
    using pause_stops_creation [OF _ _ _ t, of "''ADM''"] by simp
  with t show ?thesis by (intro exI [of _ ?s] exI [of _ t]) simp
qed

subsection \<open>Rates\<close>

text \<open>
  C32. The credit rate of a daily rate is its ceiling per ledger: every daily rate from 1 to
  \<open>MAX_CREDIT_RATE * LEDGERS_PER_DAY\<close> is accepted with the least rate per ledger that pays it, which is
  positive and within the pool's bound, and every other daily rate is \<open>InvalidCreditRate\<close>.
\<close>

theorem daily_rate_ceiling:
  "if 1 \<le> uint d \<and> uint d \<le> 100000000 * 17280
   then \<exists>r. daily_rate_to_credit_rate d s = Done r s \<and> 0 < r \<and> r \<le> MAX_CREDIT_RATE \<and>
     uint d \<le> r * 17280 \<and> r * 17280 < uint d + 17280
   else daily_rate_to_credit_rate d s = Fail InvalidCreditRate s"
proof -
  have "uint d = 0 \<longleftrightarrow> \<not> 1 \<le> uint d" using uint_ge_0 [of d] by linarith
  then have zero: "d = 0 \<longleftrightarrow> \<not> 1 \<le> uint d" using word_uint_eq_iff [of d 0] by simp
  have cap: "credit_rate_of d \<le> MAX_CREDIT_RATE \<longleftrightarrow> uint d \<le> 100000000 * 17280"
    using div_le_iff [of 17280 "uint d + 17279" 100000000] by (simp add: credit_rate_of_def MAX_CREDIT_RATE_def) linarith
  have "uint d \<le> credit_rate_of d * 17280" "credit_rate_of d * 17280 < uint d + 17280"
    using div_mult_mod_eq [of "uint d + 17279" 17280] pos_mod_bound [of 17280 "uint d + 17279"]
      pos_mod_sign [of 17280 "uint d + 17279"] unfolding credit_rate_of_def by linarith+
  then show ?thesis
    using zero cap credit_rate_bounds(1) [of d] by (auto simp: daily_rate_run not_less not_le)
qed

end
