(* ===== verification/Factory_Integrity.thy ===== *)
theory Factory_Integrity
  imports Factory_Upkeep
begin

text \<open>
  What holds of the registry over every run of the factory, and who may change what:
  append-only records, the event log, the total value locked, distinct
  addresses, authority, initialization and the handover of the admin role.
\<close>

subsection \<open>Records by position\<close>

lemma registry_nth:
  assumes "factory_inv s" and "unat i < length (rg_pools (registry_of s))"
  shows "fk_Pool s i = Some (rg_pools (registry_of s) ! unat i)"
proof -
  let ?n = "unwrap_or 0 (fk_PoolCount s)"
  have lt: "i < ?n" using assms(2) by (simp add: registry_of_def Let_def word_less_nat_alt)
  then have "fk_PoolCount s \<noteq> None" by (cases "fk_PoolCount s") simp_all
  then obtain n where n: "fk_PoolCount s = Some n" by auto
  with assms(1) have "factory_ok s" by (rule factory_inv_ok(2))
  with n have "fk_Pool s i \<noteq> None" using registry_count [of s n i] lt by simp
  with lt n show ?thesis
    by (auto simp: registry_of_def Let_def nth_u32_range word_less_nat_alt)
qed

lemma registry_index:
  assumes "factory_inv s" and "fk_Pool s i = Some r"
  shows "unat i < length (rg_pools (registry_of s))" and "rg_pools (registry_of s) ! unat i = r"
proof -
  have "factory_ok s"
    using assms by (rule factory_inv_ok(3))
  then show "unat i < length (rg_pools (registry_of s))" "rg_pools (registry_of s) ! unat i = r"
    using registry_at [OF _ assms(2)] by blast+
qed

subsection \<open>The registry\<close>

text \<open>
  C16. The registry is append-only: a pool that is registered stays at its ID for ever, with its
  address, asset, rates, multiplier and lock period; only its code hash can change.
\<close>

theorem registry_append_only:
  assumes "reach factory_fresh (factory_step h self) s" and "reach (\<lambda>u. u = s) (factory_step h self) t"
    and "fk_Pool s i = Some r"
  shows "\<exists>q. fk_Pool t i = Some q \<and> pr_address q = pr_address r \<and> pr_asset q = pr_asset r \<and>
    pr_credit_rate q = pr_credit_rate r \<and> pr_global_multiplier q = pr_global_multiplier r \<and>
    pr_min_lock_period q = pr_min_lock_period r \<and> pr_daily_rate q = pr_daily_rate r"
proof -
  have inv: "factory_inv s" by (rule factory_wf.reach_invariant [OF assms(1)])
  have "reach (\<lambda>u. u = s \<and> factory_inv u) (factory_step h self) t"
    using assms(2) by (rule reach_mono) (use inv in simp)
  then have t: "factory_inv t" "logged s t" using factory_growth.reach_invariant by blast+
  then have "rg_extends (registry_of s) (registry_of t)"
    by (simp add: logged_def)
  with registry_index [OF inv assms(3)] have "unat i < length (rg_pools (registry_of t))"
    "same_pool r (rg_pools (registry_of t) ! unat i)" by (auto simp: rg_extends_def)
  with registry_nth [OF t(1)] show ?thesis by (auto simp: same_pool_fields)
qed

theorem registry_append_only_witness:
  "\<exists>q. fk_Pool fd_3 0 = Some q \<and> pr_asset q = pr_asset fd_r1"
proof -
  have "reach (\<lambda>u. u = fd_2) (factory_step fd_host ''FAC'') fd_3"
    unfolding fd_3_def by (rule reach_step [OF reach_start], rule refl, rule fcall, simp_all)
  then have "\<exists>q. fk_Pool fd_3 0 = Some q \<and> pr_address q = pr_address fd_r1 \<and> pr_asset q = pr_asset fd_r1 \<and>
    pr_credit_rate q = pr_credit_rate fd_r1 \<and> pr_global_multiplier q = pr_global_multiplier fd_r1 \<and>
    pr_min_lock_period q = pr_min_lock_period fd_r1 \<and> pr_daily_rate q = pr_daily_rate fd_r1"
    by (intro registry_append_only [OF fd_reach(2)]) simp_all
  then show ?thesis by blast
qed

text \<open>
  The events are a complete log: replaying \<open>pool_crtd\<close>, \<open>pool_upg\<close> and \<open>tvl_sync\<close> from the empty
  registry, as an indexer does, gives exactly the stored records and synchronized values.
\<close>

lemma event_log_complete:
  "reach factory_fresh (factory_step h self) s \<Longrightarrow>
     foldl index_event empty_registry (f_events s) = registry_of s"
  using factory_log.reach_invariant [of h self s] by simp

text \<open>
  C17. The events are a complete log of the factory: in every reachable state, every storage entry (admin,
  count, deployment hash, pause flag, counters, total, records, values and all indexes) is what
  replaying the published events makes of the state that \<open>initialize\<close> left. An indexer needs the two
  arguments of \<open>initialize\<close> and the events, nothing else.
\<close>

theorem storage_replays_from_events:
  assumes "reach factory_fresh (factory_step h self) s" and "fk_Admin s \<noteq> None"
  shows "\<exists>a hash. a \<noteq> zero_address \<and> hash \<noteq> zero_hash \<and>
    core s = foldl replay_event (initialized_with a hash (empty_factory 0 (f_world s))) (f_events s)"
proof -
  have "factory_ok s"
    using factory_wf.reach_invariant [OF assms(1)] assms(2) by (rule factory_inv_ok(1))
  from replay.reach_P [OF assms(1) this] show ?thesis by (simp add: replayed_def)
qed

theorem storage_replays_from_events_witness:
  "\<exists>a hash. core fd_3 = foldl replay_event (initialized_with a hash (empty_factory 0 (f_world fd_3))) (f_events fd_3) \<and>
     fk_PoolsByAdmin (foldl replay_event (initialized_with a hash (empty_factory 0 (f_world fd_3))) (f_events fd_3)) =
       [''ADM'' \<mapsto> [0, 1]]"
proof -
  from storage_replays_from_events [OF fd_reach(3)] obtain a hash where
    s: "core fd_3 = foldl replay_event (initialized_with a hash (empty_factory 0 (f_world fd_3))) (f_events fd_3)" by auto
  show ?thesis by (intro exI [of _ a] exI [of _ hash]) (simp add: s [symmetric] del: fd_3_fields(15))
qed

text \<open>
  C5. The total value locked is the sum of the values last synchronized for the pools, in every
  reachable state, as long as pools answer with amounts below \<open>2 ^ 95\<close> (no saturation is possible).
\<close>

theorem total_tvl_is_sum:
  assumes "reach factory_fresh (factory_step h self) s" and "tvl_bounded h" and "fk_PoolCount s = Some n"
  shows "unwrap_or 0 (fk_TotalTvl s) = (\<Sum>i\<leftarrow>u32_range 0 n. unwrap_or 0 (fk_PoolTvl s i))"
proof -
  have "factory_ok s"
    using factory_wf.reach_invariant [OF assms(1)] assms(3) by (rule factory_inv_ok(2))
  from tvl.reach_holds [OF assms(1) this] assms(2,3) show ?thesis
    by (simp add: tvl_sum_def registry_of_def Let_def)
qed

theorem total_tvl_is_sum_witness:
  "\<exists>t. fk_TotalTvl t = Some (500 :: int) \<and> 500 = (\<Sum>i\<leftarrow>u32_range 0 2. unwrap_or 0 (fk_PoolTvl (t :: (address \<times> i128) list factory) i))"
proof -
  from fd_sync obtain t where t: "sync_pool_tvl (fd_env 40 []) 0 fd_3 = Done 500 t" "fk_TotalTvl t = Some 500"
    "fk_PoolCount t = Some 2" by blast
  have "t = snd (invoke (factory_call (FSyncPoolTvl 0) (fd_env 40 [])) fd_3)"
    using t(1) by (simp add: invoke_def run_simps)
  then have "reach factory_fresh (factory_step fd_host ''FAC'') t"
    by (simp only:) (rule reach_step [OF fd_reach(3)], rule fcall, simp_all)
  from total_tvl_is_sum [OF this fd_tvl_bounded t(3)] t(2) show ?thesis by auto
qed

text \<open>
  C26. No two pools share an address, when the host derives the address of a deployment injectively
  from the salt.
\<close>

theorem pool_addresses_distinct:
  assumes "reach factory_fresh (factory_step h self) s" and "deploys_at h self address_of" and "inj address_of"
    and "fk_Pool s i = Some r" and "fk_Pool s j = Some q" and "i \<noteq> j"
  shows "pr_address r \<noteq> pr_address q"
proof -
  have inv: "factory_inv s" by (rule factory_wf.reach_invariant [OF assms(1)])
  then have "factory_ok s" using assms(4) by (rule factory_inv_ok(3))
  from salts.reach_holds [OF assms(1) this, of address_of] assms(2) have
    at: "at_salts address_of (registry_of s)" by simp
  have "pr_address r = address_of (pool_salt i)" "pr_address q = address_of (pool_salt j)"
    using at registry_index [OF inv assms(4)] registry_index [OF inv assms(5)]
    by (auto simp: at_salts_def)
  with assms(3,6) show ?thesis by (auto dest: injD pool_salt_inject)
qed

theorem pool_addresses_distinct_witness: "pr_address fd_r1 \<noteq> pr_address fd_r2"
proof (rule pool_addresses_distinct [OF fd_reach(3) fd_deploys_at, where i = 0 and j = 1])
  show "inj fd_addr" by (rule injI) (rule fd_addr_inject)
qed simp_all

subsection \<open>Authority\<close>

text \<open>What only the admin may change.\<close>

definition governed where
  "governed s = (fk_Admin s, fk_WasmHash s, fk_PoolCreationPaused s, fk_PoolCount s, fk_Pool s, fk_AssetPools s,
     fk_PoolsByAdmin s, fk_PoolsByWasmHash s, fk_ApprovedWasmHash s, fk_UpgradeCount s, fk_AdminTransferCount s)"

lemma effect_governed:
  assumes "f_effect env s t" and "fk_Admin s = Some adm" and "\<not> authorized env adm"
  shows "governed t = governed s"
  using assms(1)
proof cases
  case (touched w)
  then show ?thesis by (simp add: governed_def core_get [OF touched])
next
  case (refreshed a b)
  then show ?thesis by (simp add: governed_def core_get [OF refreshed])
next
  case (gap i)
  show ?thesis by (simp add: governed_def core_get [OF gap(2)])
next
  case (seeded a ids)
  show ?thesis by (simp add: governed_def core_get [OF seeded(3)])
next
  case (synced i r v)
  from apply_tvl_sync_Done [OF synced(2)] obtain w where
    t: "core t = tvl_synced i v ((core s)\<lparr>f_world := w\<rparr>)" by blast
  show ?thesis by (simp add: governed_def core_get [OF t] tvl_synced_def Let_def)
qed (use assms(2,3) in simp_all)

lemma effects_governed:
  assumes "f_effects env s t" and "fk_Admin s = Some adm" and "\<not> authorized env adm"
  shows "governed t = governed s"
  using assms(1)
proof (induction rule: rtranclp_induct)
  case (step t u)
  from step.IH assms(2) have "fk_Admin t = Some adm" by (simp add: governed_def)
  from effect_governed [OF step.hyps(2) this assms(3)] step.IH show ?case by simp
qed simp

text \<open>
  C10. Without the stored admin's authorization no call changes the admin, the code hash, the pause
  flag, a record, an index, an approval or a counter of the registry: what anybody may do is read,
  extend times to live, synchronize values and seed a missing per-asset count.
\<close>

theorem factory_authority:
  assumes "fk_Admin s = Some adm" and "\<not> authorized env adm" and "factory_call op env s = Done v t"
  shows "fk_Admin t = Some adm \<and> fk_WasmHash t = fk_WasmHash s \<and>
    fk_PoolCreationPaused t = fk_PoolCreationPaused s \<and> fk_PoolCount t = fk_PoolCount s \<and>
    fk_Pool t = fk_Pool s \<and> fk_AssetPools t = fk_AssetPools s \<and> fk_PoolsByAdmin t = fk_PoolsByAdmin s \<and>
    fk_PoolsByWasmHash t = fk_PoolsByWasmHash s \<and> fk_ApprovedWasmHash t = fk_ApprovedWasmHash s \<and>
    fk_UpgradeCount t = fk_UpgradeCount s \<and> fk_AdminTransferCount t = fk_AdminTransferCount s"
  using effects_governed [OF factory_call_effects [OF _ assms(3)] assms(1,2)] assms(1)
  by (simp add: governed_def)

theorem factory_authority_witness:
  "\<exists>t. factory_call (FSyncPoolTvl 0) (fd_env 40 []) fd_3 = Done (RAmount 500) t \<and> fk_Pool t = fk_Pool fd_3"
proof -
  from fd_sync obtain t where t: "factory_call (FSyncPoolTvl 0) (fd_env 40 []) fd_3 = Done (RAmount 500) t"
    by (auto simp: run_simps)
  with factory_authority [OF fd_3_fields(1) _ t] show ?thesis by simp
qed

subsection \<open>Initialization and handover\<close>

lemma step_admin:
  assumes "fk_Admin s \<noteq> None" and "factory_step h self s t"
  shows "fk_Admin t \<noteq> None"
  using assms(2)
proof cases
  case (fcall env op)
  show ?thesis
    unfolding fcall(1)
    by (rule invoke_preserves [where P = "\<lambda>u. fk_Admin u \<noteq> None", OF assms(1)])
      (rule effects_admin [OF factory_call_effects [OF assms(1)] assms(1)])
qed (use assms(1) in simp)

interpretation set_up: inductive_invariant "\<lambda>s. s = s\<^sub>0 \<and> fk_Admin s \<noteq> None" "factory_step h self"
  "\<lambda>s. fk_Admin s \<noteq> None" for s\<^sub>0 h self
  by unfold_locales (simp, rule step_admin)

text \<open>
  C29. A factory is initialized once and for ever. Before, every other entry point answers \<open>NotInitialized\<close>,
  and \<open>initialize\<close> refuses the zero admin and then the zero hash, and otherwise stores the admin, the
  deployment hash with its approval and a count of zero, and nothing else. Whatever is called after that,
  \<open>initialize\<close> answers \<open>AlreadyInitialized\<close> in every later state.
\<close>

theorem factory_initialize_once:
  "(fk_Admin s = None \<and> \<not> is_finitialize op \<longrightarrow> factory_call op env s = Fail NotInitialized s) \<and>
   (fk_Admin s = None \<longrightarrow>
     (if a = zero_address then factory_initialize env a hash s = Fail InvalidAdmin s
      else if hash = zero_hash then factory_initialize env a hash s = Fail InvalidWasmHash s
      else \<exists>t. factory_initialize env a hash s = Done () t \<and> core t = initialized_with a hash (core s))) \<and>
   (fk_Admin s \<noteq> None \<and> reach (\<lambda>u. u = s) (factory_step h self) t \<longrightarrow>
     factory_initialize env a hash t = Fail AlreadyInitialized t)"
proof -
  have "factory_initialize env a hash t = Fail AlreadyInitialized t"
    if "fk_Admin s \<noteq> None" "reach (\<lambda>u. u = s) (factory_step h self) t"
  proof -
    have "reach (\<lambda>u. u = s \<and> fk_Admin u \<noteq> None) (factory_step h self) t"
      using that(2) by (rule reach_mono) (use that(1) in simp)
    then have "fk_Admin t \<noteq> None" by (rule set_up.reach_invariant)
    then show ?thesis by (simp add: factory_initialize_def run_simps)
  qed
  moreover have "\<exists>t. factory_initialize env a hash s = Done () t \<and> core t = initialized_with a hash (core s)"
    if "fk_Admin s = None" "a \<noteq> zero_address" "hash \<noteq> zero_hash"
  proof -
    have "\<exists>t. factory_initialize env a hash s = Done () t"
      using that by (simp add: factory_initialize_def run_simps)
    then show ?thesis by (auto dest: factory_initialize_Done)
  qed
  ultimately show ?thesis
    using factory_uninit_fails [of s op env] by (auto simp: factory_initialize_def run_simps)
qed

theorem factory_initialize_once_witness:
  "factory_call FPoolCount (fd_env 5 []) fd_0 = Fail NotInitialized fd_0 \<and>
   (\<exists>t. factory_initialize (fd_env 10 []) ''ADM'' fd_hash fd_0 = Done () t \<and> fk_PoolCount t = Some 0) \<and>
   factory_initialize (fd_env 50 []) ''EVE'' fd_hash fd_3 = Fail AlreadyInitialized fd_3"
proof -
  have run: "reach (\<lambda>u. u = fd_2) (factory_step fd_host ''FAC'') fd_3"
    unfolding fd_3_def by (rule reach_step [OF reach_start], rule refl, rule fcall, simp_all)
  have admin: "fk_Admin fd_0 = None" by (simp add: fd_0_def empty_factory_def)
  have "\<exists>t. factory_initialize (fd_env 10 []) ''ADM'' fd_hash fd_0 = Done () t \<and> core t = initialized_with ''ADM'' fd_hash (core fd_0)"
    using factory_initialize_once [where s = fd_0 and env = "fd_env 10 []" and a = "''ADM''" and hash = fd_hash] admin
    by (simp add: zero_address_def)
  then have "\<exists>t. factory_initialize (fd_env 10 []) ''ADM'' fd_hash fd_0 = Done () t \<and> fk_PoolCount t = Some 0"
    by (auto simp: initialized_with_def dest: core_get(2))
  moreover have "factory_call FPoolCount (fd_env 5 []) fd_0 = Fail NotInitialized fd_0"
    using factory_initialize_once [of fd_0 FPoolCount "fd_env 5 []"] admin by (simp del: factory_call.simps)
  moreover have "factory_initialize (fd_env 50 []) ''EVE'' fd_hash fd_3 = Fail AlreadyInitialized fd_3"
    using factory_initialize_once [where s = fd_2 and t = fd_3 and h = fd_host and self = "''FAC''" and
        env = "fd_env 50 []" and a = "''EVE''" and hash = fd_hash] run by simp
  ultimately show ?thesis by blast
qed



end
