(* ===== verification/Factory_Queries.thy ===== *)
theory Factory_Queries
  imports Factory_Demo
begin

text \<open>
  The listings and the times to live as their callers see them.
\<close>

subsection \<open>Listings\<close>

lemma snapshot_refl: "factory_ok s \<Longrightarrow> snapshot s s"
  by (simp add: snapshot_def)

lemma list_pools_drained:
  assumes "factory_ok s" and "fk_PoolCount s = Some n" and "start < n"
  shows "\<exists>t. drain (unat n - unat start) (\<lambda>i. returns page_result (list_pools env i l)) start s =
      Done (map (entry s) (u32_range start n)) t \<and> core t = core s"
proof -
  have "\<exists>t. drain (unat n - unat start) (\<lambda>i. returns page_result (list_pools env i l)) start s =
      Done (map (entry s) (u32_range start (unwrap_or 0 (fk_PoolCount s)))) t \<and> snapshot s t"
    using assms by (intro pools_pager.drain_all snapshot_refl) simp_all
  with assms(2) show ?thesis by (auto simp: snapshot_def)
qed

lemma asset_pools_drained:
  assumes "factory_ok s" and "fk_PoolCount s = Some n" and "start < n"
  shows "\<exists>t. drain (unat n - unat start) (\<lambda>i. returns page_result (get_pools_by_asset_range env asset i scan l)) start s =
      Done (asset_entries s asset start n) t \<and> core t = core s"
proof -
  have "\<exists>t. drain (unat n - unat start) (\<lambda>i. returns page_result (get_pools_by_asset_range env asset i scan l)) start s =
      Done (asset_entries s asset start (unwrap_or 0 (fk_PoolCount s))) t \<and> snapshot s t"
    using assms by (intro asset_pager.drain_all snapshot_refl) simp_all
  with assms(2) show ?thesis by (auto simp: snapshot_def)
qed

text \<open>
  C8. Paging is complete. A client that follows \<open>next_start_id\<close> of \<open>list_pools\<close> while \<open>has_more\<close> is set, with
  any page size, gets every pool from its start to the end exactly once, in order, with its record, in
  at most as many calls as there are pools left. The same client of \<open>get_pools_by_asset_range\<close> gets, for
  every asset, page size and scan limit, exactly the pools of the asset: no page ends before an
  unreported pool of the asset, although a page may be empty. Neither changes the registry.
\<close>

theorem paging_complete:
  assumes "factory_ok s" and "fk_PoolCount s = Some n" and "start < n"
    and "all = map (\<lambda>i. (i, the (fk_Pool s i))) (u32_range start n)"
  shows "(\<exists>t. drain (unat n - unat start) (\<lambda>i. returns page_result (list_pools env i l)) start s = Done all t \<and>
      core t = core s) \<and>
    (\<exists>t. drain (unat n - unat start) (\<lambda>i. returns page_result (get_pools_by_asset_range env asset i scan l)) start s =
      Done (filter (\<lambda>(i, r). pr_asset r = asset) all) t \<and> core t = core s)"
  using list_pools_drained [OF assms(1-3), of env l] asset_pools_drained [OF assms(1-3), of env asset scan l] assms(4)
  by (simp add: asset_entries_def entry_def [abs_def] filter_map comp_def)

theorem paging_complete_witness:
  "(\<exists>t. drain 2 (\<lambda>i. returns page_result (list_pools (fd_env 40 []) i 1)) 0 fd_3 = Done [(0, fd_r1), (1, fd_r2)] t) \<and>
   (\<exists>t. drain 2 (\<lambda>i. returns page_result (get_pools_by_asset_range (fd_env 40 []) ''USD'' i 1 1)) 0 fd_3 =
     Done [(1, fd_r2)] t)"
  using paging_complete [OF fd_3_ok fd_3_fields(2) _ refl, of 0 "fd_env 40 []" 1 "''USD''" 1]
  by (auto simp: fd_ids fd_r1_def fd_r2_def new_record_def)

text \<open>
  \<open>list_pools_sorted\<close> returns the page of \<open>list_pools\<close> for the same window, rearranged: the same
  entries and the same cursor fields, in strictly ascending order of the key with ties broken by
  the pool ID.
\<close>

lemma list_pools_sorted_rearranges:
  assumes "factory_ok s"
  shows "\<exists>p q t u. list_pools env i l s = Done p t \<and> list_pools_sorted env i l key s = Done q u \<and>
    mset (lp_records q) = mset (lp_records p) \<and> sorted_wrt (sort_precedes key) (lp_records q) \<and>
    lp_next_start_id q = lp_next_start_id p \<and> lp_total q = lp_total p \<and> lp_has_more q = lp_has_more p"
proof -
  from assms obtain n where n: "fk_PoolCount s = Some n" by (auto simp: factory_ok_def)
  let ?es = "map (entry s) (u32_range i (min (u32_saturating_add i (page_cap l)) n))"
  have "distinct (map (sort_rank key) (sort_key (sort_rank key) ?es))"
  proof -
    have "map snd (map (sort_rank key) ?es) = u32_range i (min (u32_saturating_add i (page_cap l)) n)"
      by (simp add: comp_def snd_sort_rank entry_def)
    then have "distinct (map (sort_rank key) ?es)" by (metis distinct_map distinct_u32_range)
    then show ?thesis
      by (metis mset_map mset_sort mset_eq_imp_distinct_iff)
  qed
  then have "sorted_wrt (<) (map (sort_rank key) (sort_key (sort_rank key) ?es))"
    by (simp add: strict_sorted_iff)
  then have "sorted_wrt (sort_precedes key) (sort_key (sort_rank key) ?es)"
    by (simp add: sorted_wrt_map sort_precedes_rank [abs_def])
  with list_pools_run [OF assms n refl, of env i l] list_pools_sorted_run [OF assms n refl, of env i l key]
  show ?thesis by (cases "i < n") (auto simp: page_of_def)
qed

subsection \<open>Times to live\<close>

text \<open>
  C36. No call shortens a life: after any successful call the factory instance and every persistent
  entry that existed still exist and live at least as long as before, if the host extends times to
  live as documented.
\<close>

theorem ttl_never_shrinks:
  assumes "ttl_host (host env)" and "factory_call op env s = Done v t"
  shows "f_instance_live_until s \<le> f_instance_live_until t \<and>
    (\<forall>k. f_has s k \<longrightarrow> f_has t k \<and> f_live_until s k \<le> f_live_until t k)"
  using keepsD [OF ttl_factory_call [OF assms(1)] assms(2)] by (simp add: ttl_le_def)

theorem ttl_never_shrinks_witness:
  "f_has fd_3 (KPool 0) \<and> f_live_until fd_2 (KPool 0) \<le> f_live_until fd_3 (KPool 0)"
proof -
  have "factory_call (FCreatePool ''USD'' 40000 1 50 2000000) (fd_env 30 [''ADM'']) fd_2 = Done (RCount 1) fd_3"
    using fd_create2 by (simp add: run_simps)
  from ttl_never_shrinks [OF _ this] fd_ttl_host show ?thesis by simp
qed

text \<open>
  C37. A sweep of \<open>refresh_pool_ttls\<close> by anybody returns, reports exactly the IDs of its window (at most
  20, cut at \<open>PoolCount\<close>) with none missing, leaves each of these records with at least the threshold
  of 30 days to live, and changes no entry of the registry.
\<close>

theorem refresh_pool_ttls_sweeps:
  assumes "factory_ok s" and "fk_PoolCount s = Some n" and "ttl_host (host env)"
  shows "\<exists>e t. refresh_pool_ttls env start limit s =
      Done \<lparr>rp_refreshed = u32_range start e, rp_end_id = e, rp_missing = 0\<rparr> t \<and>
    unat e = min (unat start + min (unat limit) 20) (unat n) \<and>
    (\<forall>j. start \<le> j \<and> j < e \<longrightarrow> unat (sequence env) + 518400 \<le> f_live_until t (KPool j)) \<and>
    core t = (core s)\<lparr>f_events := f_events s @ [TtlRef start e]\<rparr>"
proof -
  let ?e = "min (u32_saturating_add start (min limit 20)) n"
  have "unat ?e = min (unat start + min (unat limit) 20) (unat n)"
    using unat_u32_less [of n] by (auto simp: unat_u32_saturating_add min_def word_le_nat_alt split: if_splits)
  moreover have "unat TTL_THRESHOLD = 518400" by (simp add: TTL_THRESHOLD_def)
  ultimately show ?thesis
    using refresh_pool_ttls_run [OF assms refl, of start limit] by (auto simp: lives_def)
qed

theorem refresh_pool_ttls_sweeps_witness:
  "\<exists>e t. refresh_pool_ttls (fd_env 40 []) 0 7 fd_3 = Done \<lparr>rp_refreshed = u32_range 0 e, rp_end_id = e, rp_missing = 0\<rparr> t \<and>
     unat e = 2 \<and> 518440 \<le> f_live_until t (KPool 1)"
proof -
  from refresh_pool_ttls_sweeps [OF fd_3_ok fd_3_fields(2), of "fd_env 40 []" 0 7] fd_ttl_host obtain e t where
    t: "refresh_pool_ttls (fd_env 40 []) 0 7 fd_3 = Done \<lparr>rp_refreshed = u32_range 0 e, rp_end_id = e, rp_missing = 0\<rparr> t"
      "unat e = 2" "\<forall>j. j < e \<longrightarrow> 518440 \<le> f_live_until t (KPool j)" by auto
  from t(2) have "1 < e" by (simp add: word_less_nat_alt)
  with t show ?thesis by auto
qed

end
