(* ===== verification/Factory_Reads.thy ===== *)
theory Factory_Reads
  imports Factory_Upkeep
begin

text \<open>
  The reads of the factory, specified as functions of the abstract registry. \<open>factory_view\<close> gives the
  answer a client expects of each of the eighteen read entry points; the code gives exactly this
  answer and changes nothing but times to live.
\<close>

subsection \<open>The specification of the reads\<close>

text \<open>A read by ID: of the record in that position, or \<open>PoolNotFound\<close>.\<close>

definition at_id :: "'w factory \<Rightarrow> u32 \<Rightarrow> (PoolRecord \<Rightarrow> (FactoryError, factory_value) reply) \<Rightarrow> (FactoryError, factory_value) reply" where
  "at_id s i k = (let rs = rg_pools (registry_of s) in
     if unat i < length rs then k (rs ! unat i) else Failed PoolNotFound)"

text \<open>A page of at most 20 entries from position \<open>i\<close> on, put in order.\<close>

definition view_page :: "'w factory \<Rightarrow> u32 \<Rightarrow> u32 \<Rightarrow> ((u32 \<times> PoolRecord) list \<Rightarrow> (u32 \<times> PoolRecord) list) \<Rightarrow> ListPoolsResponse" where
  "view_page s i l order =
     (let rs = rg_pools (registry_of s);
          e = min (unat i + (if l = 0 then 20 else min (unat l) 20)) (length rs)
      in \<lparr>lp_records = order (map (\<lambda>k. (of_nat k, rs ! k)) [unat i..<e]), lp_next_start_id = of_nat e,
          lp_total = of_nat (length rs), lp_has_more = e < length rs\<rparr>)"

text \<open>The expected answers. Calls that are not in the list write, or are paged through an asset's index.\<close>

fun factory_view :: "factory_op \<Rightarrow> 'w env \<Rightarrow> 'w factory \<Rightarrow> (FactoryError, factory_value) reply option" where
  "factory_view FAdmin env s = Some (Returned (RAddress (the (fk_Admin s))))"
| "factory_view FPoolWasmHash env s = Some (Returned (RHash (the (fk_WasmHash s))))"
| "factory_view FPoolCount env s = Some (Returned (RCount (of_nat (length (rg_pools (registry_of s))))))"
| "factory_view (FPoolExists i) env s = Some (Returned (RBool (unat i < length (rg_pools (registry_of s)))))"
| "factory_view (FGetPool i) env s = Some (at_id s i (\<lambda>r. Returned (RRecord r)))"
| "factory_view (FListPools i l) env s = Some (Returned (RPage (view_page s i l (\<lambda>es. es))))"
| "factory_view (FListPoolsSorted i l key) env s = Some (Returned (RPage (view_page s i l (sort_key (sort_rank key)))))"
| "factory_view (FPoolCountByAsset a) env s =
     Some (Returned (RCount (of_nat (length (filter (\<lambda>r. pr_asset r = a) (rg_pools (registry_of s)))))))"
| "factory_view (FGetPoolsByAdmin a) env s = Some (Returned (RIds (unwrap_or [] (fk_PoolsByAdmin s a))))"
| "factory_view (FGetAdminPoolCount a) env s = Some (Returned (RCount (vec_len (unwrap_or [] (fk_PoolsByAdmin s a)))))"
| "factory_view FAdminTransferCount env s = Some (Returned (RCount (unwrap_or 0 (fk_AdminTransferCount s))))"
| "factory_view FGetAdminTransferCount env s = Some (Returned (RCount (unwrap_or 0 (fk_AdminTransferCount s))))"
| "factory_view FUpgradeCount env s = Some (Returned (RCount (unwrap_or 0 (fk_UpgradeCount s))))"
| "factory_view FTotalTvl env s = Some (Returned (RAmount (unwrap_or 0 (fk_TotalTvl s))))"
| "factory_view (FPoolTvlSynced i) env s =
     Some (at_id s i (\<lambda>_. Returned (RAmount (rg_tvls (registry_of s) ! unat i))))"
| "factory_view (FPoolTvl i) env s = Some (at_id s i (\<lambda>r.
     case fst (try_total_staked (host env) (f_world s) (pr_address r)) of
       None \<Rightarrow> Failed PoolQueryFailed | Some v \<Rightarrow> Returned (RAmount v)))"
| "factory_view (FPoolStatus i) env s = Some (at_id s i (\<lambda>r.
     case (fst (try_is_paused (host env) (f_world s) (pr_address r)),
           fst (try_total_staked (host env) (f_world s) (pr_address r))) of
       (Some p, Some v) \<Rightarrow> Returned (RStatus \<lparr>ps_address = pr_address r, ps_is_paused = p, ps_total_staked = v\<rparr>)
     | _ \<Rightarrow> Failed PoolQueryFailed))"
| "factory_view FIsPoolCreationPaused env s = Some (Returned (RBool (unwrap_or False (fk_PoolCreationPaused s))))"
| "factory_view op env s = None"

text \<open>The pools' views change nothing.\<close>

definition pure_views :: "'w host \<Rightarrow> bool" where
  "pure_views h \<longleftrightarrow> pure_queries h \<and> (\<forall>w a. snd (try_is_paused h w a) = w)"

subsection \<open>The code against it\<close>

lemma view_registry:
  assumes "factory_ok s" and "fk_PoolCount s = Some n"
  shows "length (rg_pools (registry_of s)) = unat n"
    and "fk_Pool s i = (if unat i < unat n then Some (rg_pools (registry_of s) ! unat i) else None)"
    and "unat i < unat n \<Longrightarrow> rg_tvls (registry_of s) ! unat i = unwrap_or 0 (fk_PoolTvl s i)"
proof -
  show "length (rg_pools (registry_of s)) = unat n"
    using assms(2) by (simp add: registry_of_def Let_def)
  show "fk_Pool s i = (if unat i < unat n then Some (rg_pools (registry_of s) ! unat i) else None)"
    using registry_count [OF assms, of i] assms(2)
    by (auto simp: registry_of_def Let_def nth_u32_range word_less_nat_alt)
  show "unat i < unat n \<Longrightarrow> rg_tvls (registry_of s) ! unat i = unwrap_or 0 (fk_PoolTvl s i)"
    using assms(2) by (simp add: registry_of_def Let_def nth_u32_range)
qed

lemma view_entries:
  assumes "factory_ok s" and "fk_PoolCount s = Some n" and "e \<le> n"
  shows "map (entry s) (u32_range i e) = map (\<lambda>k. (of_nat k, rg_pools (registry_of s) ! k)) [unat i..<unat e]"
proof -
  have "unat (of_nat k :: u32) = k" if "k < unat e" for k
    using that unat_u32_less [of e] by (simp add: unat_of_nat)
  with assms(3) show ?thesis
    by (auto simp: u32_range_def entry_def view_registry(2) [OF assms(1,2)] word_le_nat_alt)
qed

lemma view_page_run:
  assumes "factory_ok s" and "fk_PoolCount s = Some n" and "e = min (u32_saturating_add i (page_cap l)) n"
    and "order [] = []"
  shows "(if i < n then page_of n (order (map (entry s) (u32_range i e))) e else page_of n [] n) = view_page s i l order"
proof -
  have cap: "unat (page_cap l) = (if l = 0 then 20 else min (unat l) 20)"
    by (auto simp: page_cap_def min_def word_le_nat_alt)
  have e: "unat e = min (unat i + (if l = 0 then 20 else min (unat l) 20)) (unat n)"
    using assms(3) unat_u32_less [of n]
    by (auto simp: cap [symmetric] unat_u32_saturating_add min_def word_le_nat_alt split: if_splits)
  have less: "unat e < unat n \<longleftrightarrow> e < n" by (simp add: word_less_nat_alt)
  have page: "view_page s i l order = page_of n (order (map (\<lambda>k. (of_nat k, rg_pools (registry_of s) ! k)) [unat i..<unat e])) e"
    unfolding view_page_def Let_def page_of_def view_registry(1) [OF assms(1,2)] e [symmetric] less by simp
  have "e \<le> n" using assms(3) by simp
  note entries = view_entries [OF assms(1,2) this, of i]
  show ?thesis
  proof (cases "i < n")
    case True
    then show ?thesis by (simp add: page entries)
  next
    case False
    then have "unat n \<le> unat i" by (simp add: word_less_nat_alt not_less)
    then have "e = n" "[unat i..<unat n] = []" using e by (simp_all add: word_unat_eq_iff)
    with False assms(4) show ?thesis by (simp add: page del: upt_eq_Nil_conv)
  qed
qed

lemma invoke_returns:
  "m s = Done x t \<Longrightarrow> invoke (returns k m) s = (Returned (k x), t)"
  "m s = Fail e t \<Longrightarrow> invoke (returns k m) s = (Failed e, s)"
  by (simp_all add: invoke_def run_simps)

text \<open>A call answers \<open>a\<close> and changes no entry.\<close>

definition answers :: "('w factory, FactoryError, 'a) rust \<Rightarrow> 'w factory \<Rightarrow> (FactoryError, 'a) reply \<Rightarrow> bool" where
  "answers m s a \<longleftrightarrow> (\<exists>t. invoke m s = (a, t) \<and> core t = core s)"

lemma answers_Done: "m s = Done x t \<Longrightarrow> core t = core s \<Longrightarrow> answers (returns k m) s (Returned (k x))"
  by (simp add: answers_def invoke_returns)

lemma answers_Fail: "m s = Fail e t \<Longrightarrow> answers (returns k m) s (Failed e)"
  by (simp add: answers_def invoke_returns)

lemma settings_answer:
  assumes "factory_ok s"
  shows "answers (factory_call FAdmin env) s (Returned (RAddress (the (fk_Admin s))))"
    and "answers (factory_call FPoolWasmHash env) s (Returned (RHash (the (fk_WasmHash s))))"
    and "answers (factory_call (FGetPoolsByAdmin b) env) s (Returned (RIds (unwrap_or [] (fk_PoolsByAdmin s b))))"
    and "answers (factory_call (FGetAdminPoolCount b) env) s (Returned (RCount (vec_len (unwrap_or [] (fk_PoolsByAdmin s b)))))"
    and "answers (factory_call FAdminTransferCount env) s (Returned (RCount (unwrap_or 0 (fk_AdminTransferCount s))))"
    and "answers (factory_call FUpgradeCount env) s (Returned (RCount (unwrap_or 0 (fk_UpgradeCount s))))"
    and "answers (factory_call FTotalTvl env) s (Returned (RAmount (unwrap_or 0 (fk_TotalTvl s))))"
    and "answers (factory_call FIsPoolCreationPaused env) s (Returned (RBool (unwrap_or False (fk_PoolCreationPaused s))))"
  using assms by (auto simp: factory_ok_def answers_def invoke_def factory_entry_defs run_simps bump_defs
      read_admin_transfer_count_def read_upgrade_count_def read_total_tvl_def)

lemma pool_reads_answer:
  assumes "factory_ok s" and "fk_PoolCount s = Some n"
  shows "answers (factory_call FPoolCount env) s (Returned (RCount (of_nat (length (rg_pools (registry_of s))))))"
    and "answers (factory_call (FPoolExists i) env) s (Returned (RBool (unat i < length (rg_pools (registry_of s)))))"
    and "answers (factory_call (FGetPool i) env) s (at_id s i (\<lambda>r. Returned (RRecord r)))"
    and "answers (factory_call (FPoolTvlSynced i) env) s (at_id s i (\<lambda>_. Returned (RAmount (rg_tvls (registry_of s) ! unat i))))"
proof -
  have adm: "fk_Admin s \<noteq> None" using assms(1) by (rule factory_ok_admin)
  note view = view_registry [OF assms(1,2)]
  show "answers (factory_call FPoolCount env) s (Returned (RCount (of_nat (length (rg_pools (registry_of s))))))"
    using adm assms(2) by (simp add: answers_def invoke_def factory_entry_defs run_simps view(1))
  show "answers (factory_call (FPoolExists i) env) s (Returned (RBool (unat i < length (rg_pools (registry_of s)))))"
    using adm by (simp add: answers_def invoke_def factory_entry_defs run_simps view(1,2))
  show "answers (factory_call (FGetPool i) env) s (at_id s i (\<lambda>r. Returned (RRecord r)))"
    using adm by (simp add: answers_def invoke_def factory_entry_defs run_simps view(1,2) at_id_def Let_def)
  show "answers (factory_call (FPoolTvlSynced i) env) s (at_id s i (\<lambda>_. Returned (RAmount (rg_tvls (registry_of s) ! unat i))))"
    using adm by (simp add: answers_def invoke_def factory_entry_defs run_simps view at_id_def Let_def read_pool_tvl_def)
qed

lemma live_reads_answer:
  assumes "factory_ok s" and "fk_PoolCount s = Some n" and "pure_views (host env)"
  shows "answers (factory_call (FPoolTvl i) env) s (the (factory_view (FPoolTvl i) env s))"
    and "answers (factory_call (FPoolStatus i) env) s (the (factory_view (FPoolStatus i) env s))"
proof -
  have adm: "fk_Admin s \<noteq> None" using assms(1) by (rule factory_ok_admin)
  note view = view_registry [OF assms(1,2)]
  have pure: "snd (try_total_staked (host env) w a) = w" "snd (try_is_paused (host env) w a) = w" for w a
    using assms(3) by (simp_all add: pure_views_def pure_queries_def)
  show "answers (factory_call (FPoolTvl i) env) s (the (factory_view (FPoolTvl i) env s))"
    using adm by (auto simp: answers_def invoke_def factory_entry_defs run_simps view(1,2) at_id_def Let_def
        query_pool_tvl_def pure split: option.split)
  show "answers (factory_call (FPoolStatus i) env) s (the (factory_view (FPoolStatus i) env s))"
    using adm by (auto simp: answers_def invoke_def factory_entry_defs run_simps view(1,2) at_id_def Let_def
        pure split: option.split)
qed

lemma listings_answer:
  assumes "factory_ok s" and "fk_PoolCount s = Some n"
  shows "answers (factory_call (FListPools i l) env) s (Returned (RPage (view_page s i l (\<lambda>es. es))))"
    and "answers (factory_call (FListPoolsSorted i l key) env) s (Returned (RPage (view_page s i l (sort_key (sort_rank key)))))"
proof -
  have "\<exists>t. list_pools env i l s = Done (view_page s i l (\<lambda>es. es)) t \<and> core t = core s"
    using list_pools_run [OF assms refl, of env i l] view_page_run [OF assms refl, of "\<lambda>es. es" i l] by simp
  then show "answers (factory_call (FListPools i l) env) s (Returned (RPage (view_page s i l (\<lambda>es. es))))"
    by (auto intro: answers_Done)
  have "\<exists>t. list_pools_sorted env i l key s = Done (view_page s i l (sort_key (sort_rank key))) t \<and> core t = core s"
    using list_pools_sorted_run [OF assms refl, of env i l key] view_page_run [OF assms refl, of "sort_key (sort_rank key)" i l]
    by simp
  then show "answers (factory_call (FListPoolsSorted i l key) env) s (Returned (RPage (view_page s i l (sort_key (sort_rank key)))))"
    by (auto intro: answers_Done)
qed

lemma asset_count_answers:
  assumes "factory_ok s" and "fk_PoolCount s = Some n"
  shows "answers (factory_call (FPoolCountByAsset a) env) s
    (Returned (RCount (of_nat (length (filter (\<lambda>r. pr_asset r = a) (rg_pools (registry_of s)))))))"
proof -
  have adm: "fk_Admin s \<noteq> None" using assms(1) by (rule factory_ok_admin)
  have idx: "indexes_ok s n" using assms by (auto simp: factory_ok_def)
  have "filter (\<lambda>r. pr_asset r = a) (rg_pools (registry_of s)) = map (\<lambda>i. the (fk_Pool s i)) (asset_ids s n a)"
    using assms(2) by (simp add: registry_of_def Let_def asset_ids_def filter_map comp_def)
  then have len: "of_nat (length (filter (\<lambda>r. pr_asset r = a) (rg_pools (registry_of s)))) = vec_len (asset_ids s n a)"
    by (simp add: vec_len_def)
  show ?thesis
    unfolding len using idx adm
    by (cases "asset_ids s n a = []")
      (auto simp: indexes_ok_def answers_def invoke_def pool_count_by_asset_def run_simps bump_defs vec_len_def)
qed

text \<open>
  C14. The reads are the abstract registry's. On a well-formed factory every read (admin, hash, counters, pause
  flag, total, existence, record, synchronized and live value, status, count by asset, list by admin,
  plain and sorted pages) always answers, never traps, answers exactly what \<open>factory_view\<close> computes from
  the list of records and values, including \<open>PoolNotFound\<close> for an unused ID and \<open>PoolQueryFailed\<close> for a
  pool that does not answer, and changes nothing but times to live.
\<close>

theorem reads_answer:
  assumes "factory_ok s" and "pure_views (host env)" and "factory_view op env s = Some a"
  shows "\<exists>t. invoke (factory_call op env) s = (a, t) \<and> core t = core s"
proof -
  from assms(1) obtain n where n: "fk_PoolCount s = Some n" by (auto simp: factory_ok_def)
  note answer = settings_answer [OF assms(1)] pool_reads_answer [OF assms(1) n]
    live_reads_answer [OF assms(1) n assms(2)] listings_answer [OF assms(1) n] asset_count_answers [OF assms(1) n]
  have "answers (factory_call op env) s a"
    using assms(3) answer by (cases op) (auto simp: get_admin_transfer_count_def)
  then show ?thesis by (simp add: answers_def)
qed

lemma fd_views: "pure_views fd_host" and fd_running [simp]: "try_is_paused fd_host w a = (Some False, w)"
  using fd_pure by (simp_all add: pure_views_def fd_host_def)

theorem reads_answer_witness:
  "fst (invoke (factory_call (FPoolStatus 1) (fd_env 40 [])) fd_3) =
     Returned (RStatus \<lparr>ps_address = pr_address fd_r2, ps_is_paused = False, ps_total_staked = 500\<rparr>)"
  using reads_answer [OF fd_3_ok, of "fd_env 40 []" "FPoolStatus 1"] fd_views
  by (auto simp: at_id_def registry_of_def fd_ids Let_def fd_r2_def new_record_def)

subsection \<open>The lists of the admins\<close>

text \<open>Every pool is in the list that \<open>get_pools_by_admin\<close> returns for exactly one admin.\<close>

lemma admin_lists_exact:
  assumes "factory_ok s" and "fk_PoolCount s = Some n" and "i < n"
  shows "\<exists>!b. \<exists>ids t. get_pools_by_admin env b s = Done ids t \<and> i \<in> set ids"
proof -
  have adm: "fk_Admin s \<noteq> None" using assms(1) by (rule factory_ok_admin)
  have get: "(\<exists>ids t. get_pools_by_admin env b s = Done ids t \<and> i \<in> set ids) \<longleftrightarrow>
      i \<in> set (unwrap_or [] (fk_PoolsByAdmin s b))" for b
    using adm by (cases "fk_PoolsByAdmin s b") (auto simp: get_pools_by_admin_def run_simps bump_defs)
  show ?thesis
    using assms unfolding get factory_ok_def admins_ok_def by auto
qed

end
