(* ===== verification/Factory_Creation.thy ===== *)
theory Factory_Creation
  imports Factory_Demo
begin

text \<open>
  Creating pools: the invariant every call keeps, when \<open>create_pool\<close> succeeds and what it does, with
  which error it refuses, and batches.
\<close>

subsection \<open>The invariant\<close>

text \<open>
  C2. In every state a factory can reach by any calls of anybody, it is untouched or well-formed: its
  pools are numbered from 0 without a gap below \<open>PoolCount\<close>, every record has rates, multiplier and
  lock period within their bounds, the per-asset index and count are exactly the pools of the asset in
  ascending order, every pool is in exactly one admin's index, and the code-hash index lists only
  pools that run the hash.
\<close>

theorem factory_invariant:
  "reach factory_fresh (factory_step h self) s \<Longrightarrow> factory_fresh s \<or> factory_ok s"
  using factory_wf.reach_invariant [of h self s] by (simp add: factory_inv_def)

theorem factory_invariant_witness: "factory_fresh fd_3 \<or> factory_ok fd_3"
  using factory_invariant [OF fd_reach(3)] .

subsection \<open>Creating pools\<close>

text \<open>
  C4. \<open>create_pool\<close> on a well-formed factory returns exactly when the transaction carries the stored
  admin's authorization, creation is not paused, the asset answers the two token probes, the
  parameters are in range, an ID is left, and the deployment and the initialization of the pool
  succeed on the worlds the calls before them left.
\<close>

theorem create_pool_exactly_when:
  assumes "factory_ok s"
  shows "(\<exists>i t. create_pool env asset daily gm mlp ms s = Done i t) \<longleftrightarrow>
    (\<exists>adm i hash w1 b w2 addr w3 w4. fk_Admin s = Some adm \<and> authorized env adm \<and>
      \<not> unwrap_or False (fk_PoolCreationPaused s) \<and>
      try_symbol (host env) (f_world s) asset = (True, w1) \<and>
      try_balance (host env) w1 asset (current_contract env) = (Some b, w2) \<and>
      pool_params_valid (current_contract env) adm asset daily gm mlp ms \<and>
      fk_PoolCount s = Some i \<and> i \<noteq> u32_max \<and> fk_WasmHash s = Some hash \<and>
      deploy_v2 (host env) w2 (current_contract env) (pool_salt i) hash = Some (addr, w3) \<and>
      pool_initialize (host env) w3 addr (new_init_args adm asset daily gm mlp ms) = Some w4)"
    (is "?lhs \<longleftrightarrow> ?rhs")
proof
  assume ?lhs
  then obtain i t adm where a: "fk_Admin s = Some adm" "authorized env adm"
    and c: "create_pool_inner env adm asset daily gm mlp ms s = Done i t" by (auto simp: create_pool_Done)
  from c show ?rhs
  proof (rule create_pool_inner_Done)
    fix w1 w2 w3 w4 b n k hash addr
    assume "u32_checked_add i 1 = Some n"
    then have "i \<noteq> u32_max" using u32_checked_add_1_None [of i] by auto
    moreover assume "\<not> unwrap_or False (fk_PoolCreationPaused s)"
      "try_symbol (host env) (f_world s) asset = (True, w1)"
      "try_balance (host env) w1 asset (current_contract env) = (Some b, w2)"
      "pool_params_valid (current_contract env) adm asset daily gm mlp ms"
      "fk_PoolCount s = Some i" "fk_WasmHash s = Some hash"
      "deploy_v2 (host env) w2 (current_contract env) (pool_salt i) hash = Some (addr, w3)"
      "pool_initialize (host env) w3 addr (new_init_args adm asset daily gm mlp ms) = Some w4"
    ultimately show ?rhs using a by blast
  qed
next
  assume ?rhs
  then show ?lhs using create_pool_returns [OF assms] by blast
qed

theorem create_pool_exactly_when_witness:
  "\<exists>i t. create_pool (fd_env 20 [''ADM'']) ''XLM'' 17281 2 100 0 fd_1 = Done i t"
  unfolding create_pool_exactly_when [OF fd_1_ok] using fd_params(1) by simp

text \<open>
  C9. A successful \<open>create_pool\<close> returns the old \<open>PoolCount\<close> as the ID of a pool that was not there,
  deploys under the salt of this ID and initializes the pool with the same asset, multiplier, rate,
  lock period and minimum stake that the record and the event carry; it counts the pool once in the
  registry, once in the asset's index and once in the admin's index, and starts its value at 0.
\<close>

theorem create_pool_registers:
  assumes "factory_ok s" and "fk_Admin s = Some adm"
    and "create_pool env asset daily gm mlp ms s = Done i t"
  shows "\<exists>n hash addr w2 w3 w4 stake r.
    r = \<lparr>pr_address = addr, pr_asset = asset, pr_credit_rate = (uint daily + 17279) div 17280,
      pr_global_multiplier = gm, pr_min_lock_period = ucast mlp, pr_daily_rate = daily, pr_wasm_hash = hash\<rparr> \<and>
    stake = (if ms \<le> 0 then MIN_STAKE_AMOUNT else ms) \<and>
    fk_PoolCount s = Some i \<and> fk_PoolCount t = Some n \<and> unat n = Suc (unat i) \<and> fk_WasmHash s = Some hash \<and>
    deploy_v2 (host env) w2 (current_contract env) (pool_salt i) hash = Some (addr, w3) \<and>
    pool_initialize (host env) w3 addr \<lparr>ia_admin = adm, ia_asset = asset, ia_global_multiplier = gm,
      ia_credit_rate = pr_credit_rate r, ia_min_lock_period = ucast mlp, ia_min_stake_amount = stake\<rparr> = Some w4 \<and>
    f_world t = w4 \<and> fk_Pool s i = None \<and> fk_Pool t = (fk_Pool s)(i \<mapsto> r) \<and>
    fk_PoolTvl t = (fk_PoolTvl s)(i \<mapsto> 0) \<and> fk_TotalTvl t = fk_TotalTvl s \<and>
    fk_AssetPools t = (fk_AssetPools s)(asset \<mapsto> unwrap_or [] (fk_AssetPools s asset) @ [i]) \<and>
    fk_PoolsByAdmin t = (fk_PoolsByAdmin s)(adm \<mapsto> unwrap_or [] (fk_PoolsByAdmin s adm) @ [i]) \<and>
    f_events t = f_events s @ [PoolCrtd i addr adm asset (pr_credit_rate r) gm (ucast mlp) daily hash stake]"
proof -
  from assms(2,3) have inner: "create_pool_inner env adm asset daily gm mlp ms s = Done i t"
    by (simp add: create_pool_Done)
  from assms(1) inner obtain n hash addr w4 where c: "fk_PoolCount s = Some i" "u32_checked_add i 1 = Some n"
    "fk_WasmHash s = Some hash"
    "\<exists>w2 w3. deploy_v2 (host env) w2 (current_contract env) (pool_salt i) hash = Some (addr, w3) \<and>
       pool_initialize (host env) w3 addr (new_init_args adm asset daily gm mlp ms) = Some w4"
    and t: "core t = pool_added adm (effective_stake ms) i n (vec_len (asset_ids s i asset @ [i]))
       (new_record addr asset daily gm mlp hash) w4 (core s)" by (rule create_pool_inner_ok)
  have "fk_Pool s i = None" using registry_count [OF assms(1) c(1), of i] by simp
  moreover have "unat n = Suc (unat i)" using u32_checked_add_1_Some [OF c(2)] by blast
  ultimately show ?thesis
    using c core_get [OF t]
    by (auto simp: pool_added_def new_record_def new_init_args_def effective_stake_def credit_rate_of_def)
qed

theorem create_pool_registers_witness:
  "fk_PoolCount fd_2 = Some 1 \<and> (\<exists>n :: u32. unat n = Suc (unat (0 :: u32)) \<and> fk_PoolCount fd_2 = Some n)"
  using create_pool_registers [OF fd_1_ok fd_1_fields(1) fd_create] by auto

subsection \<open>Refusals\<close>

text \<open>The first parameter check of the creation that fails, in the order of the code.\<close>

definition refusal :: "address \<Rightarrow> address \<Rightarrow> address \<Rightarrow> u128 \<Rightarrow> u32 \<Rightarrow> u64 \<Rightarrow> i128 \<Rightarrow> FactoryError option" where
  "refusal self admin asset daily gm mlp ms =
     (if asset \<in> {zero_address, self, admin} then Some InvalidAsset
      else if unat gm \<notin> {1..1000} then Some InvalidGlobalMultiplier
      else if uint daily \<notin> {1..1728000000000} then Some InvalidCreditRate
      else if unat mlp = 0 then Some MinLockPeriodTooShort
      else if 2 ^ 32 \<le> unat mlp then Some MinLockPeriodOutOfRange
      else if 63072000 < unat mlp then Some MinLockPeriodAboveCeiling
      else if ms \<notin> {- (10 ^ 18)..0} \<union> {1000000..10 ^ 18} then Some InvalidMinStakeAmount
      else None)"

lemma refusal_None: "refusal self admin asset daily gm mlp ms = None \<longleftrightarrow> pool_params_valid self admin asset daily gm mlp ms"
  by (auto simp: refusal_def pool_params_valid_def)

lemma refusal_words:
  "(gm < 1 \<or> MAX_GLOBAL_MULTIPLIER < gm) \<longleftrightarrow> unat gm \<notin> {1..1000}"
  "(daily = 0 \<or> MAX_DAILY_RATE < daily) \<longleftrightarrow> uint daily \<notin> {1..1728000000000}"
  "mlp = 0 \<longleftrightarrow> unat mlp = 0"
  "u32_try_into mlp = (if unat mlp < 2 ^ 32 then Some (ucast mlp) else None)"
  "unat mlp < 2 ^ 32 \<Longrightarrow> MAX_MIN_LOCK_PERIOD < (ucast mlp :: u32) \<longleftrightarrow> 63072000 < unat mlp"
  "unat mlp < 2 ^ 32 \<Longrightarrow> mlp \<noteq> 0 \<Longrightarrow> \<not> (ucast mlp :: u32) < MIN_LOCK_PERIOD"
proof -
  show "(gm < 1 \<or> MAX_GLOBAL_MULTIPLIER < gm) \<longleftrightarrow> unat gm \<notin> {1..1000}"
    by (auto simp: MAX_GLOBAL_MULTIPLIER_def word_less_nat_alt)
  have "1 \<le> uint daily \<longleftrightarrow> uint daily \<noteq> 0" using uint_ge_0 [of daily] by linarith
  moreover have "daily = 0 \<longleftrightarrow> uint daily = 0" by (simp add: word_uint_eq_iff)
  ultimately show "(daily = 0 \<or> MAX_DAILY_RATE < daily) \<longleftrightarrow> uint daily \<notin> {1..1728000000000}"
    by (auto simp: MAX_DAILY_RATE_def MAX_CREDIT_RATE_def LEDGERS_PER_DAY_def word_less_def)
  show "mlp = 0 \<longleftrightarrow> unat mlp = 0" by (simp add: unat_eq_0)
  show "u32_try_into mlp = (if unat mlp < 2 ^ 32 then Some (ucast mlp) else None)"
    by (simp add: u32_try_into_def)
  assume "unat mlp < 2 ^ 32"
  then have u: "unat (ucast mlp :: u32) = unat mlp" by (simp add: unsigned_ucast_eq take_bit_nat_eq_self)
  then show "MAX_MIN_LOCK_PERIOD < (ucast mlp :: u32) \<longleftrightarrow> 63072000 < unat mlp"
    by (simp add: MAX_MIN_LOCK_PERIOD_def word_less_nat_alt)
  show "mlp \<noteq> 0 \<Longrightarrow> \<not> (ucast mlp :: u32) < MIN_LOCK_PERIOD"
    using u by (auto simp: MIN_LOCK_PERIOD_def word_less_nat_alt unat_eq_0)
qed

lemma refusal_stake:
  "(MAX_STAKE_AMOUNT < ms \<or> ms < - MAX_STAKE_AMOUNT \<or>
     \<not> (MIN_STAKE_AMOUNT \<le> effective_stake ms \<and> effective_stake ms \<le> MAX_STAKE_AMOUNT)) \<longleftrightarrow>
   ms \<notin> {- (10 ^ 18)..0} \<union> {1000000..10 ^ 18}"
  by (auto simp: MAX_STAKE_AMOUNT_def MIN_STAKE_AMOUNT_def effective_stake_def)

lemma refusal_code:
  "refusal self admin asset daily gm mlp ms =
     (if asset = zero_address \<or> asset = self \<or> asset = admin then Some InvalidAsset
      else if gm < 1 \<or> MAX_GLOBAL_MULTIPLIER < gm then Some InvalidGlobalMultiplier
      else if daily = 0 \<or> MAX_DAILY_RATE < daily then Some InvalidCreditRate
      else if mlp = 0 then Some MinLockPeriodTooShort
      else if u32_try_into mlp = None then Some MinLockPeriodOutOfRange
      else if MAX_MIN_LOCK_PERIOD < (ucast mlp :: u32) then Some MinLockPeriodAboveCeiling
      else if MAX_STAKE_AMOUNT < ms \<or> ms < - MAX_STAKE_AMOUNT \<or>
        \<not> (MIN_STAKE_AMOUNT \<le> effective_stake ms \<and> effective_stake ms \<le> MAX_STAKE_AMOUNT) then Some InvalidMinStakeAmount
      else None)"
  unfolding refusal_def refusal_words(1-4) refusal_stake
  using refusal_words(5) [of mlp] by (simp add: not_less)

lemma create_pool_inner_refuses:
  assumes "\<not> unwrap_or False (fk_PoolCreationPaused s)"
    and "try_symbol (host env) (f_world s) asset = (True, w1)"
    and "try_balance (host env) w1 asset (current_contract env) = (Some b, w2)"
    and "refusal (current_contract env) adm asset daily gm mlp ms = Some e"
  shows "\<exists>t. create_pool_inner env adm asset daily gm mlp ms s = Fail e t"
proof -
  have rate: "credit_rate_of daily \<le> MAX_CREDIT_RATE" "0 < credit_rate_of daily" if "daily \<noteq> 0" "\<not> MAX_DAILY_RATE < daily"
    using that max_daily_rate [of daily] credit_rate_bounds(1) [of daily] by (simp_all add: not_less)
  have lock: "\<not> (ucast mlp :: u32) < MIN_LOCK_PERIOD" "u32_try_into mlp = Some (ucast mlp)" if "mlp \<noteq> 0" "u32_try_into mlp \<noteq> None"
    using that refusal_words(6) [of mlp] by (auto simp: u32_try_into_def split: if_splits)
  show ?thesis
    using assms rate lock
    by (auto simp: create_pool_inner_def validate_asset_def run_simps Let_def refusal_code effective_stake_def split: if_split_asm)
qed

text \<open>The token probes of \<open>validate_asset\<close>, and the whole ladder of refusals of a creation.\<close>

definition probes_ok :: "'w env \<Rightarrow> 'w \<Rightarrow> address \<Rightarrow> bool" where
  "probes_ok env w asset \<longleftrightarrow> fst (try_symbol (host env) w asset) \<and>
     fst (try_balance (host env) (snd (try_symbol (host env) w asset)) asset (current_contract env)) \<noteq> None"

definition creation_refusal ::
  "'w env \<Rightarrow> 'w factory \<Rightarrow> address \<Rightarrow> address \<Rightarrow> u128 \<Rightarrow> u32 \<Rightarrow> u64 \<Rightarrow> i128 \<Rightarrow> FactoryError option" where
  "creation_refusal env s adm asset daily gm mlp ms =
     (if unwrap_or False (fk_PoolCreationPaused s) then Some PoolCreationPaused
      else if \<not> probes_ok env (f_world s) asset then Some InvalidAsset
      else case refusal (current_contract env) adm asset daily gm mlp ms of
        Some e \<Rightarrow> Some e
      | None \<Rightarrow> if fk_PoolCount s = Some u32_max then Some PoolCountOverflow else None)"

lemma create_pool_inner_full:
  assumes "\<not> unwrap_or False (fk_PoolCreationPaused s)" and "probes_ok env (f_world s) asset"
    and "pool_params_valid (current_contract env) adm asset daily gm mlp ms" and "fk_PoolCount s = Some u32_max"
  shows "\<exists>t. create_pool_inner env adm asset daily gm mlp ms s = Fail PoolCountOverflow t"
proof -
  note p = pool_params_validD [OF assms(3)]
  have rate: "credit_rate_of daily \<le> MAX_CREDIT_RATE" "0 < credit_rate_of daily"
    using p(6,7) max_daily_rate credit_rate_bounds(1) by auto
  have "u32_checked_add u32_max 1 = None" by (simp add: u32_checked_add_1_None)
  with assms(1,2,4) p rate p(14,15) [unfolded effective_stake_def] leD [OF p(5)] leD [OF p(6)] leD [OF p(11)]
  show ?thesis
    by (simp add: create_pool_inner_def validate_asset_def run_simps Let_def probes_ok_def)
qed

lemma create_pool_inner_refused:
  assumes "creation_refusal env s adm asset daily gm mlp ms = Some e"
  shows "\<exists>t. create_pool_inner env adm asset daily gm mlp ms s = Fail e t"
proof (cases "unwrap_or False (fk_PoolCreationPaused s) \<or> \<not> probes_ok env (f_world s) asset")
  case True
  with assms show ?thesis
    by (auto simp: creation_refusal_def create_pool_inner_def validate_asset_def run_simps probes_ok_def split: if_splits)
next
  case False
  then obtain w1 b w2 where probes: "try_symbol (host env) (f_world s) asset = (True, w1)"
    "try_balance (host env) w1 asset (current_contract env) = (Some b, w2)"
    unfolding probes_ok_def by (metis option.exhaust prod.collapse)
  show ?thesis
  proof (cases "refusal (current_contract env) adm asset daily gm mlp ms")
    case None
    with False assms show ?thesis
      by (auto simp: creation_refusal_def refusal_None split: if_splits intro: create_pool_inner_full)
  next
    case (Some e')
    with False assms have "e' = e" by (simp add: creation_refusal_def)
    with create_pool_inner_refuses [OF _ probes Some] False show ?thesis by simp
  qed
qed

text \<open>
  The deployment and the initialization of the pool succeed, on the worlds that the probes before
  them left.
\<close>

definition deployable ::
  "'w env \<Rightarrow> 'w factory \<Rightarrow> address \<Rightarrow> address \<Rightarrow> u128 \<Rightarrow> u32 \<Rightarrow> u64 \<Rightarrow> i128 \<Rightarrow> bool" where
  "deployable env s adm asset daily gm mlp ms =
     (let w = snd (try_balance (host env) (snd (try_symbol (host env) (f_world s) asset)) asset (current_contract env))
      in case deploy_v2 (host env) w (current_contract env) (pool_salt (the (fk_PoolCount s))) (the (fk_WasmHash s)) of
        None \<Rightarrow> False
      | Some (addr, w') \<Rightarrow> pool_initialize (host env) w' addr (new_init_args adm asset daily gm mlp ms) \<noteq> None)"

lemma probes_okE:
  assumes "probes_ok env w asset"
  obtains w1 b w2 where "try_symbol (host env) w asset = (True, w1)"
    "try_balance (host env) w1 asset (current_contract env) = (Some b, w2)"
  using assms unfolding probes_ok_def by (metis option.exhaust prod.collapse)

lemma creation_refusal_None:
  "creation_refusal env s adm asset daily gm mlp ms = None \<longleftrightarrow>
     \<not> unwrap_or False (fk_PoolCreationPaused s) \<and> probes_ok env (f_world s) asset \<and>
     pool_params_valid (current_contract env) adm asset daily gm mlp ms \<and> fk_PoolCount s \<noteq> Some u32_max"
  by (auto simp: creation_refusal_def refusal_None [symmetric] split: option.split)

lemma create_pool_deployable:
  assumes "factory_ok s" and "fk_Admin s = Some adm" and "authorized env adm"
    and "creation_refusal env s adm asset daily gm mlp ms = None" and "deployable env s adm asset daily gm mlp ms"
  shows "\<exists>i t. create_pool env asset daily gm mlp ms s = Done i t"
proof -
  from assms(1) obtain i hash where s: "fk_PoolCount s = Some i" "fk_WasmHash s = Some hash" by (auto simp: factory_ok_def)
  note c = assms(4) [unfolded creation_refusal_None]
  from c obtain w1 b w2 where w: "try_symbol (host env) (f_world s) asset = (True, w1)"
    "try_balance (host env) w1 asset (current_contract env) = (Some b, w2)" by (auto elim: probes_okE)
  from assms(5) w s obtain addr w3 w4 where
    "deploy_v2 (host env) w2 (current_contract env) (pool_salt i) hash = Some (addr, w3)"
    "pool_initialize (host env) w3 addr (new_init_args adm asset daily gm mlp ms) = Some w4"
    by (auto simp: deployable_def split: option.splits)
  with create_pool_returns [OF assms(1-3) _ w _ s(1) _ s(2)] c s(1) show ?thesis by blast
qed

lemma create_pool_inner_undeployable:
  assumes "factory_ok s" and "creation_refusal env s adm asset daily gm mlp ms = None"
    and "\<not> deployable env s adm asset daily gm mlp ms"
  shows "create_pool_inner env adm asset daily gm mlp ms s = Trap"
proof -
  from assms(1) obtain i hash where s: "fk_PoolCount s = Some i" "fk_WasmHash s = Some hash" by (auto simp: factory_ok_def)
  note c = assms(2) [unfolded creation_refusal_None]
  from c obtain w1 b w2 where w: "try_symbol (host env) (f_world s) asset = (True, w1)"
    "try_balance (host env) w1 asset (current_contract env) = (Some b, w2)" by (auto elim: probes_okE)
  from c s(1) obtain n where n: "u32_checked_add i 1 = Some n"
    using u32_checked_add_1_None [of i] by (cases "u32_checked_add i 1") simp_all
  from c have "pool_params_valid (current_contract env) adm asset daily gm mlp ms" by simp
  note p = pool_params_validD [OF this]
  have rate: "credit_rate_of daily \<le> MAX_CREDIT_RATE" "0 < credit_rate_of daily"
    using p(6,7) max_daily_rate credit_rate_bounds(1) by auto
  from assms(3) s w n c p rate p(14,15) [unfolded effective_stake_def] leD [OF p(5)] leD [OF p(6)] leD [OF p(11)]
  show ?thesis
    by (auto simp: create_pool_inner_def validate_asset_def run_simps Let_def deployable_def new_init_args_def
       effective_stake_def split: option.splits)
qed

text \<open>
  C23. What \<open>create_pool\<close> answers, in every case: without the admin's authorization it traps; with it, a
  paused factory answers \<open>PoolCreationPaused\<close> whatever the parameters, an asset that fails a token probe is
  \<open>InvalidAsset\<close>, parameters out of range are refused with the error of the first check they fail, and
  when every ID is used the error is \<open>PoolCountOverflow\<close>. A creation that no check refuses returns,
  unless the host cannot deploy or initialize the pool, and then it traps.
\<close>

theorem create_pool_refusals:
  assumes "factory_ok s" and "fk_Admin s = Some adm"
  shows "if \<not> authorized env adm then create_pool env asset daily gm mlp ms s = Trap
    else case creation_refusal env s adm asset daily gm mlp ms of
      Some e \<Rightarrow> \<exists>t. create_pool env asset daily gm mlp ms s = Fail e t
    | None \<Rightarrow> if deployable env s adm asset daily gm mlp ms then \<exists>i t. create_pool env asset daily gm mlp ms s = Done i t
        else create_pool env asset daily gm mlp ms s = Trap"
proof -
  have "adm \<noteq> zero_address" using assms by (auto simp: factory_ok_def)
  then have run: "create_pool env asset daily gm mlp ms s =
      (if authorized env adm then create_pool_inner env adm asset daily gm mlp ms s else Trap)"
    using assms(2) by (simp add: create_pool_def run_simps validate_factory_admin_def)
  show ?thesis
    using create_pool_inner_refused [of env s adm asset daily gm mlp ms] create_pool_deployable [OF assms, of env asset daily gm mlp ms]
      create_pool_inner_undeployable [OF assms(1), of env adm asset daily gm mlp ms]
    by (simp add: run split: option.split)
qed

theorem create_pool_refusals_witness:
  "create_pool (fd_env 20 []) ''XLM'' 17281 2 100 0 fd_1 = Trap \<and>
   (\<exists>t. create_pool (fd_env 20 [''ADM'']) ''XLM'' 17281 2 70000000 0 fd_1 = Fail MinLockPeriodAboveCeiling t)"
proof -
  have "creation_refusal (fd_env 20 [''ADM'']) fd_1 ''ADM'' ''XLM'' 17281 2 70000000 0 = Some MinLockPeriodAboveCeiling"
    by (simp add: creation_refusal_def probes_ok_def refusal_def zero_address_def)
  then show ?thesis
    using create_pool_refusals [OF fd_1_ok fd_1_fields(1), of "fd_env 20 []" "''XLM''" 17281 2 100 0]
      create_pool_refusals [OF fd_1_ok fd_1_fields(1), of "fd_env 20 [''ADM'']" "''XLM''" 17281 2 70000000 0]
    by simp
qed

subsection \<open>Batches\<close>

text \<open>One run of the loop of \<open>create_pools_batch\<close>: the pools of the batch at the next IDs, in order.\<close>

definition mirrors :: "PoolParams \<Rightarrow> PoolRecord \<Rightarrow> bool" where
  "mirrors p r \<longleftrightarrow> pr_asset r = pp_asset p \<and> pr_daily_rate r = pp_daily_rate p \<and>
     pr_global_multiplier r = pp_global_multiplier p \<and> unat (pr_min_lock_period r) = unat (pp_min_lock_period p)"

lemma new_record_mirrors:
  assumes "pool_params_valid self adm (pp_asset p) (pp_daily_rate p) (pp_global_multiplier p)
      (pp_min_lock_period p) (pp_min_stake_amount p)"
  shows "mirrors p (new_record addr (pp_asset p) (pp_daily_rate p) (pp_global_multiplier p) (pp_min_lock_period p) hash)"
proof -
  from assms have "unat (pp_min_lock_period p) < 2 ^ 32" by (simp add: pool_params_valid_def)
  then show ?thesis
    by (simp add: mirrors_def new_record_def unsigned_ucast_eq take_bit_nat_eq_self)
qed

definition create_params :: "'w env \<Rightarrow> address \<Rightarrow> PoolParams \<Rightarrow> ('w, u32) fac" where
  "create_params env adm p = create_pool_inner env adm (pp_asset p) (pp_daily_rate p)
     (pp_global_multiplier p) (pp_min_lock_period p) (pp_min_stake_amount p)"

lemma create_params_registers:
  assumes "factory_ok s" and "fk_PoolCount s = Some n" and "create_params env adm p s = Done i u"
  shows "i = n \<and> factory_ok u \<and> fk_Admin u = fk_Admin s \<and> (\<exists>n' r. fk_PoolCount u = Some n' \<and> u32_checked_add n 1 = Some n' \<and>
    mirrors p r \<and> fk_Pool u = (fk_Pool s)(n \<mapsto> r))"
proof -
  from assms(1) assms(3) [unfolded create_params_def] obtain n' hash addr w4 where
    c: "pool_params_valid (current_contract env) adm (pp_asset p) (pp_daily_rate p) (pp_global_multiplier p)
      (pp_min_lock_period p) (pp_min_stake_amount p)" "fk_PoolCount s = Some i" "u32_checked_add i 1 = Some n'"
    and u: "core u = pool_added adm (effective_stake (pp_min_stake_amount p)) i n' (vec_len (asset_ids s i (pp_asset p) @ [i]))
       (new_record addr (pp_asset p) (pp_daily_rate p) (pp_global_multiplier p) (pp_min_lock_period p) hash) w4 (core s)"
    and ok: "factory_ok u" by (rule create_pool_inner_ok)
  have "fk_PoolCount u = Some n'" "fk_Pool u = (fk_Pool s)(i \<mapsto> new_record addr (pp_asset p) (pp_daily_rate p)
      (pp_global_multiplier p) (pp_min_lock_period p) hash)" "fk_Admin u = fk_Admin s"
    using core_get [OF u] by (simp_all add: pool_added_def)
  with c ok assms(2) new_record_mirrors [OF c(1)] show ?thesis by auto
qed

lemma create_loop_registers:
  assumes "for_each ps acc (\<lambda>p ids. and_then (create_params env adm p) (\<lambda>i. ok (ids @ [i]))) s = Done ids t"
    and "factory_ok s" and "fk_PoolCount s = Some n"
  shows "\<exists>m. fk_PoolCount t = Some m \<and> unat m = unat n + length ps \<and> ids = acc @ u32_range n m \<and>
    (\<forall>i < n. fk_Pool t i = fk_Pool s i) \<and>
    (\<forall>k < length ps. \<exists>r. fk_Pool t (n + of_nat k) = Some r \<and> mirrors (ps ! k) r)"
  using assms
proof (induction ps arbitrary: acc s n)
  case Nil
  then show ?case by (simp add: run_iffs)
next
  case (Cons p ps)
  from Cons.prems(1) obtain i u where inner: "create_params env adm p s = Done i u"
    and rest: "for_each ps (acc @ [i]) (\<lambda>p ids. and_then (create_params env adm p) (\<lambda>i. ok (ids @ [i]))) u = Done ids t"
    by (auto simp: run_iffs)
  from create_params_registers [OF Cons.prems(2,3) inner] obtain n' r where i: "i = n" and ok: "factory_ok u"
    and u: "fk_PoolCount u = Some n'" and add: "u32_checked_add n 1 = Some n'"
    and r: "mirrors p r" "fk_Pool u = (fk_Pool s)(n \<mapsto> r)" by blast
  note less = u32_less_Suc [OF add]
  have n': "unat n' = Suc (unat n)" "n' = n + 1" using u32_checked_add_1_Some [OF add] by blast+
  from Cons.IH [OF rest ok u] obtain m where
    m: "fk_PoolCount t = Some m" "unat m = unat n' + length ps" "ids = (acc @ [i]) @ u32_range n' m"
      "\<forall>j < n'. fk_Pool t j = fk_Pool u j"
      "\<forall>k < length ps. \<exists>r. fk_Pool t (n' + of_nat k) = Some r \<and> mirrors (ps ! k) r" by blast
  have "u32_range n m = u32_range n n' @ u32_range n' m"
    using n'(1) m(2) by (intro u32_range_append) (simp_all add: word_le_nat_alt)
  moreover have "u32_range n n' = [n]" using n' by (simp add: u32_range_def)
  moreover have "\<exists>q. fk_Pool t (n + of_nat k) = Some q \<and> mirrors ((p # ps) ! k) q" if "k < length (p # ps)" for k
    using that m(4,5) n'(2) less r by (cases k) (auto simp: add.assoc)
  moreover have "fk_Pool t j = fk_Pool s j" if "j < n" for j
    using that m(4) r(2) less by auto
  ultimately show ?case
    using m(1-3) n'(1) i by auto
qed

text \<open>The reference for a batch: a client that calls \<open>create_pool\<close> once per entry and stops at the first failure.\<close>

fun create_one_by_one :: "'w env \<Rightarrow> PoolParams list \<Rightarrow> ('w, u32 list) fac" where
  "create_one_by_one env [] = ok []"
| "create_one_by_one env (p # ps) =
     and_then (create_pool env (pp_asset p) (pp_daily_rate p) (pp_global_multiplier p) (pp_min_lock_period p)
       (pp_min_stake_amount p)) (\<lambda>i.
     and_then (create_one_by_one env ps) (\<lambda>ids. ok (i # ids)))"

lemma create_pool_authorized:
  assumes "factory_ok s" and "fk_Admin s = Some adm" and "authorized env adm"
  shows "create_pool env (pp_asset p) (pp_daily_rate p) (pp_global_multiplier p) (pp_min_lock_period p)
    (pp_min_stake_amount p) s = create_params env adm p s"
proof -
  have "adm \<noteq> zero_address" using assms(1,2) by (auto simp: factory_ok_def)
  with assms(2,3) show ?thesis
    by (simp add: create_pool_def create_params_def run_simps validate_factory_admin_def)
qed

lemma create_loop_one_by_one:
  assumes "factory_ok s" and "fk_Admin s = Some adm" and "fk_PoolCount s = Some n" and "authorized env adm"
  shows "for_each ps acc (\<lambda>p ids. and_then (create_params env adm p) (\<lambda>i. ok (ids @ [i]))) s =
    and_then (create_one_by_one env ps) (\<lambda>ids. ok (acc @ ids)) s"
  using assms(1-3)
proof (induction ps arbitrary: acc s n)
  case Nil
  then show ?case by (simp add: run_simps)
next
  case (Cons p ps)
  show ?case
  proof (cases "create_params env adm p s")
    case (Done i u)
    from create_params_registers [OF Cons.prems(1,3) Done] Cons.prems(2) obtain n' where
      "factory_ok u" "fk_Admin u = Some adm" "fk_PoolCount u = Some n'" by auto
    from Cons.IH [OF this, of "acc @ [i]"] show ?thesis
      using Done create_pool_authorized [OF Cons.prems(1,2) assms(4), of p]
      by (cases "create_one_by_one env ps u") (simp_all add: run_simps)
  qed (use create_pool_authorized [OF Cons.prems(1,2) assms(4), of p] in \<open>simp_all add: run_simps\<close>)
qed

text \<open>
  C24. \<open>create_pools_batch\<close> with the admin's authorization answers \<open>EmptyBatch\<close> on an empty batch and
  \<open>BatchTooLarge\<close> on more than ten entries. Within these bounds its outcome, whether it returns, fails or
  traps, is the one of calling \<open>create_pool\<close> entry by entry up to the first failure; and when it returns, the
  IDs are the next consecutive ones in the order of the batch, the record at each mirrors its entry,
  and no earlier record changed.
\<close>

theorem create_pools_batch_consecutive:
  assumes "factory_ok s" and "fk_Admin s = Some adm" and "fk_PoolCount s = Some n" and "authorized env adm"
    and "length ps < 2 ^ 32"
  shows "(ps = [] \<longrightarrow> create_pools_batch env ps s = Fail EmptyBatch s) \<and>
    (10 < length ps \<longrightarrow> create_pools_batch env ps s = Fail BatchTooLarge s) \<and>
    (1 \<le> length ps \<and> length ps \<le> 10 \<longrightarrow> create_pools_batch env ps s = create_one_by_one env ps s) \<and>
    (\<forall>ids t. create_pools_batch env ps s = Done ids t \<longrightarrow>
      (\<exists>m. fk_PoolCount t = Some m \<and> unat m = unat n + length ps \<and>
        ids = u32_range n m \<and> (\<forall>i < n. fk_Pool t i = fk_Pool s i) \<and>
        (\<forall>k < length ps. \<exists>r. fk_Pool t (n + of_nat k) = Some r \<and> mirrors (ps ! k) r)))"
proof -
  have "adm \<noteq> zero_address" using assms(1,2) by (auto simp: factory_ok_def)
  moreover have size: "MAX_BATCH_SIZE < vec_len ps \<longleftrightarrow> 10 < length ps"
    using unat_vec_len [of ps] assms(5) by (simp add: MAX_BATCH_SIZE_def word_less_nat_alt)
  ultimately have run: "create_pools_batch env ps s =
      (if ps = [] then Fail EmptyBatch s else if 10 < length ps then Fail BatchTooLarge s
       else for_each ps [] (\<lambda>p ids. and_then (create_params env adm p) (\<lambda>i. ok (ids @ [i]))) s)"
    using assms(2,4) by (simp add: create_pools_batch_def create_params_def [abs_def] run_simps validate_factory_admin_def)
  have "for_each ps [] (\<lambda>p ids. and_then (create_params env adm p) (\<lambda>i. ok (ids @ [i]))) s = create_one_by_one env ps s"
    using create_loop_one_by_one [OF assms(1-4), of ps "[]"]
    by (cases "create_one_by_one env ps s") (simp_all add: run_simps)
  then show ?thesis
    unfolding run using create_loop_registers [OF _ assms(1,3), of ps "[]" env adm]
    by (auto split: if_splits)
qed

lemma fd_batch:
  "create_pools_batch (fd_env 20 [''ADM'']) [\<lparr>pp_asset = ''XLM'', pp_daily_rate = 17281,
     pp_global_multiplier = 2, pp_min_lock_period = 100, pp_min_stake_amount = 0\<rparr>] fd_1 = Done [0] fd_2"
proof -
  from fd_create have "create_pool_inner (fd_env 20 [''ADM'']) ''ADM'' ''XLM'' 17281 2 100 0 fd_1 = Done 0 fd_2"
    by (simp add: create_pool_Done)
  then show ?thesis
    by (simp add: create_pools_batch_def run_simps validate_factory_admin_def zero_address_def vec_len_def MAX_BATCH_SIZE_def)
qed

theorem create_pools_batch_consecutive_witness:
  "let p = \<lparr>pp_asset = ''XLM'', pp_daily_rate = 17281, pp_global_multiplier = 2, pp_min_lock_period = 100,
     pp_min_stake_amount = 0\<rparr>
   in create_one_by_one (fd_env 20 [''ADM'']) [p] fd_1 = Done [0] fd_2 \<and> (\<exists>r. fk_Pool fd_2 0 = Some r \<and> mirrors p r)"
  using create_pools_batch_consecutive [OF fd_1_ok fd_1_fields(1,2), of "fd_env 20 [''ADM'']"
      "[\<lparr>pp_asset = ''XLM'', pp_daily_rate = 17281, pp_global_multiplier = 2, pp_min_lock_period = 100, pp_min_stake_amount = 0\<rparr>]"]
    fd_batch by (auto simp: Let_def simp del: create_one_by_one.simps)

end
