(* ===== verification/Factory_Panics.thy ===== *)
theory Factory_Panics
  imports Factory_Reads Factory_Creation
begin

text \<open>
  When a call of the factory can panic. A panic aborts the whole transaction, so the theory shows that
  no entry point of a well-formed factory reaches one through its own state: every storage entry
  that is unwrapped or extended exists, and the loops add no overflow.
\<close>

subsection \<open>Creations\<close>

lemma create_pool_Trap:
  assumes "factory_ok s" and "fk_Admin s = Some adm" and "authorized env adm"
    and "create_pool env asset daily gm mlp ms s = Trap"
  shows "creation_refusal env s adm asset daily gm mlp ms = None \<and> \<not> deployable env s adm asset daily gm mlp ms"
proof -
  have "adm \<noteq> zero_address" using assms(1,2) by (auto simp: factory_ok_def)
  then have run: "create_pool env asset daily gm mlp ms s = create_pool_inner env adm asset daily gm mlp ms s"
    using assms(2,3) by (simp add: create_pool_def run_simps validate_factory_admin_def)
  show ?thesis
  proof (cases "creation_refusal env s adm asset daily gm mlp ms")
    case None
    with create_pool_deployable [OF assms(1-3) None] assms(4) show ?thesis by auto
  next
    case (Some e)
    with create_pool_inner_refused [OF Some] assms(4) run show ?thesis by auto
  qed
qed

lemma one_by_one_Trap:
  assumes "factory_ok s" and "fk_Admin s = Some adm" and "authorized env adm"
    and "create_one_by_one env ps s = Trap"
  shows "\<exists>k ids u. k < length ps \<and> create_one_by_one env (take k ps) s = Done ids u \<and>
    create_params env adm (ps ! k) u = Trap \<and> factory_ok u \<and> fk_Admin u = Some adm"
  using assms(1,2,4)
proof (induction ps arbitrary: s)
  case Nil
  then show ?case by (simp add: run_simps)
next
  case (Cons p ps)
  note first = create_pool_authorized [OF Cons.prems(1,2) assms(3), of p]
  from Cons.prems(1) obtain n where n: "fk_PoolCount s = Some n" by (auto simp: factory_ok_def)
  show ?case
  proof (cases "create_params env adm p s")
    case (Done i u)
    from create_params_registers [OF Cons.prems(1) n Done] Cons.prems(2) have
      u: "factory_ok u" "fk_Admin u = Some adm" by auto
    have "create_one_by_one env ps u = Trap"
      using Cons.prems(3) Done first by (cases "create_one_by_one env ps u") (simp_all add: run_simps)
    from Cons.IH [OF u this] obtain k ids v where "k < length ps" "create_one_by_one env (take k ps) u = Done ids v"
      "create_params env adm (ps ! k) v = Trap" "factory_ok v" "fk_Admin v = Some adm" by blast
    with Done first show ?thesis by (auto simp: run_simps intro!: exI [of _ "Suc k"])
  next
    case Trap
    with Cons.prems show ?thesis by (auto simp: run_simps intro!: exI [of _ 0])
  qed (use Cons.prems(3) first in \<open>simp add: run_simps\<close>)
qed

lemma create_pools_batch_Trap:
  assumes "factory_ok s" and "fk_Admin s = Some adm" and "authorized env adm" and "create_pools_batch env ps s = Trap"
  shows "\<exists>k ids u. k < length ps \<and> create_one_by_one env (take k ps) s = Done ids u \<and>
    \<not> deployable env u adm (pp_asset (ps ! k)) (pp_daily_rate (ps ! k)) (pp_global_multiplier (ps ! k))
      (pp_min_lock_period (ps ! k)) (pp_min_stake_amount (ps ! k))"
proof -
  from assms(1,2) obtain n where n: "fk_PoolCount s = Some n" "adm \<noteq> zero_address" by (auto simp: factory_ok_def)
  have "create_one_by_one env ps s = Trap"
    using assms(2-4) n(2) create_loop_one_by_one [OF assms(1,2) n(1) assms(3), of ps "[]"]
    by (cases "create_one_by_one env ps s")
      (auto simp: create_pools_batch_def create_params_def [abs_def] run_simps validate_factory_admin_def split: if_splits)
  from one_by_one_Trap [OF assms(1-3) this] obtain k ids u where
    k: "k < length ps" "create_one_by_one env (take k ps) s = Done ids u" "create_params env adm (ps ! k) u = Trap"
      "factory_ok u" "fk_Admin u = Some adm" by blast
  from k(3) have "create_pool env (pp_asset (ps ! k)) (pp_daily_rate (ps ! k)) (pp_global_multiplier (ps ! k))
      (pp_min_lock_period (ps ! k)) (pp_min_stake_amount (ps ! k)) u = Trap"
    by (simp add: create_pool_authorized [OF k(4,5) assms(3)])
  from create_pool_Trap [OF k(4,5) assms(3) this] k(1,2) show ?thesis by blast
qed

subsection \<open>Calls open to everybody\<close>

lemma apply_tvl_sync_total: "apply_tvl_sync env i a s \<noteq> Trap"
  by (cases "query_pool_tvl env a s")
    (auto simp: apply_tvl_sync_def query_pool_tvl_def run_simps Let_def bump_defs ok_or_def split: option.splits)

lemma sync_loop_total: "sync_loop env i e s \<noteq> Trap"
proof (induction env i e arbitrary: s rule: sync_loop.induct)
  case (1 env i e)
  show ?case
    using 1 apply_tvl_sync_total [of env i]
    by (subst sync_loop.simps) (auto simp: run_simps split: option.split outcome.split)
qed

lemma refresh_loop_total:
  "\<forall>i \<in> set ids. fk_Pool s i \<noteq> None \<Longrightarrow> \<exists>d m t. for_each ids acc (refresh_body env) s = Done (d, m) t"
proof (induction ids arbitrary: acc s)
  case Nil
  then show ?case by (cases acc) (simp add: run_simps)
next
  case (Cons i ids)
  from Cons.prems obtain r where "fk_Pool s i = Some r" by auto
  with Cons.IH [of "f_extended env (KPool i) s"] Cons.prems show ?case
    by (cases acc) (auto simp: refresh_body_def run_simps)
qed

text \<open>The calls that ask for the admin's authorization.\<close>

fun needs_admin :: "factory_op \<Rightarrow> bool" where
  "needs_admin (FTransferAdmin a) = True"
| "needs_admin (FUpgradePool i h) = True"
| "needs_admin (FUpgradePoolsBatch ids h) = True"
| "needs_admin (FSetPoolWasmHash h) = True"
| "needs_admin FPausePoolCreation = True"
| "needs_admin FUnpausePoolCreation = True"
| "needs_admin (FCreatePool a d g l m) = True"
| "needs_admin (FCreatePoolsBatch ps) = True"
| "needs_admin op = False"

lemma answers_total: "answers m s (Returned v) \<Longrightarrow> m s \<noteq> Trap" "answers m s (Failed e) \<Longrightarrow> m s \<noteq> Trap"
  by (auto simp: answers_def invoke_def split: outcome.splits)

lemma open_calls_total:
  assumes "factory_ok s" and "\<not> needs_admin op"
  shows "factory_call op env s \<noteq> Trap"
proof -
  from assms(1) obtain n hash where n: "fk_PoolCount s = Some n" "fk_WasmHash s = Some hash" by (auto simp: factory_ok_def)
  have adm: "fk_Admin s \<noteq> None" using assms(1) by (rule factory_ok_admin)
  note answer = settings_answer [OF assms(1), THEN answers_total(1)] listings_answer [OF assms(1) n(1), THEN answers_total(1)]
    asset_count_answers [OF assms(1) n(1), THEN answers_total(1)] pool_reads_answer(1,2) [OF assms(1) n(1), THEN answers_total(1)]
  have by_id: "get_pool env i s \<noteq> Trap" "pool_tvl_synced env i s \<noteq> Trap" "pool_tvl env i s \<noteq> Trap"
    "pool_status env i s \<noteq> Trap" "sync_pool_tvl env i s \<noteq> Trap" for i
    using adm apply_tvl_sync_total [of env i]
    by (cases "fk_Pool s i"; auto simp: factory_entry_defs run_simps ok_or_def query_pool_tvl_def bump_defs split: option.split)+
  have range: "get_pools_by_asset_range env a i c l s \<noteq> Trap" for a i c l
  proof (cases "i < n")
    case True
    with get_pools_by_asset_range_run [OF assms(1) n(1), of i env a c l] show ?thesis by auto
  next
    case False
    with adm n(1) show ?thesis by (auto simp: get_pools_by_asset_range_def run_simps)
  qed
  have refresh: "refresh_pool_ttls env i l s \<noteq> Trap" for i l
  proof -
    let ?ids = "u32_range i (min (u32_saturating_add i (min l 20)) n)"
    have "\<forall>j \<in> set ?ids. fk_Pool (f_bumped env s) j \<noteq> None"
      using registry_count [OF assms(1) n(1)] by auto
    from refresh_loop_total [OF this, of "([], 0)" env] obtain d m t where
      "for_each ?ids ([], 0) (refresh_body env) (f_bumped env s) = Done (d, m) t" by blast
    with adm n(1) show ?thesis
      by (auto simp: refresh_pool_ttls_def run_simps Let_def refresh_body_def [abs_def])
  qed
  have sweep: "sync_all_pool_tvls env i l s \<noteq> Trap" for i l
    using adm sync_loop_total by (auto simp: sync_all_pool_tvls_def run_simps Let_def split: outcome.split)
  have init: "factory_initialize env a h s \<noteq> Trap" for a h
    using adm by (auto simp: factory_initialize_def run_simps)
  show ?thesis
    using assms(2) answer by_id range refresh sweep init
    by (cases op) (auto simp: returns_Trap get_pools_by_asset_def get_admin_transfer_count_def)
qed

subsection \<open>Calls of the admin\<close>

lemma admin_calls_total:
  assumes "factory_ok s" and "fk_Admin s = Some adm" and "authorized env adm"
  shows "upgrade_pool env i h s \<noteq> Trap" and "upgrade_pools_batch env ids h s \<noteq> Trap"
    and "set_pool_wasm_hash env h s \<noteq> Trap" and "pause_pool_creation env s \<noteq> Trap"
    and "unpause_pool_creation env s \<noteq> Trap"
    and "factory_transfer_admin env a s = Trap \<Longrightarrow> fk_AdminTransferCount s = Some u32_max"
proof -
  from assms(1,2) obtain hash where h: "fk_WasmHash s = Some hash" "adm \<noteq> zero_address" by (auto simp: factory_ok_def)
  show "upgrade_pool env i h s \<noteq> Trap"
    using assms(2,3) h(2) upgrade_pool_inner_total [where env = env and s = "f_bumped env s" and adm = adm and i = i and hash = h]
    by (auto simp: upgrade_pool_def run_simps validate_factory_admin_def split: option.splits)
  show "upgrade_pools_batch env ids h s \<noteq> Trap"
    using assms(2,3) h(2) upgrade_loop_refused [of ids env adm h "f_bumped env s"]
    by (auto simp: upgrade_pools_batch_def run_simps validate_factory_admin_def)
  show "set_pool_wasm_hash env h s \<noteq> Trap" "pause_pool_creation env s \<noteq> Trap" "unpause_pool_creation env s \<noteq> Trap"
    using assms(2,3) h(1) by (auto simp: factory_entry_defs run_simps)
  show "fk_AdminTransferCount s = Some u32_max" if trap: "factory_transfer_admin env a s = Trap"
  proof -
    have "\<not> unat (unwrap_or 0 (fk_AdminTransferCount s)) + 1 < 2 ^ 32"
      using trap assms(2,3)
      by (auto simp: factory_transfer_admin_def increment_admin_transfer_count_def read_admin_transfer_count_def run_simps split: if_splits)
    then have "unat (unwrap_or 0 (fk_AdminTransferCount s)) = unat u32_max"
      using unat_u32_less [of "unwrap_or 0 (fk_AdminTransferCount s)"] by simp
    then show ?thesis by (cases "fk_AdminTransferCount s") (simp_all add: word_unat_eq_iff)
  qed
qed

text \<open>
  C15. When the factory panics. A call of a well-formed factory traps only if it needs the admin and the
  transaction lacks the admin's authorization, if the counter of admin transfers is at its maximum,
  or if it creates a pool that the host cannot deploy or initialize (in a batch: after the entries
  before it were created). Every other call, whatever its arguments and whatever the pools and tokens
  answer, returns a value or a typed error.
\<close>

theorem factory_panics_only:
  assumes "factory_ok s" and "fk_Admin s = Some adm" and "factory_call op env s = Trap"
  shows "needs_admin op \<and> \<not> authorized env adm \<or>
    (\<exists>a. op = FTransferAdmin a \<and> fk_AdminTransferCount s = Some u32_max) \<or>
    (\<exists>asset daily gm mlp ms. op = FCreatePool asset daily gm mlp ms \<and> \<not> deployable env s adm asset daily gm mlp ms) \<or>
    (\<exists>ps k ids u. op = FCreatePoolsBatch ps \<and> k < length ps \<and> create_one_by_one env (take k ps) s = Done ids u \<and>
      \<not> deployable env u adm (pp_asset (ps ! k)) (pp_daily_rate (ps ! k)) (pp_global_multiplier (ps ! k))
        (pp_min_lock_period (ps ! k)) (pp_min_stake_amount (ps ! k)))"
proof (cases "needs_admin op \<and> authorized env adm")
  case True
  note total = admin_calls_total [OF assms(1,2)] create_pool_Trap [OF assms(1,2)] create_pools_batch_Trap [OF assms(1,2)]
  show ?thesis
    using True assms(3) total by (cases op) (auto simp: returns_Trap)
next
  case False
  with open_calls_total [OF assms(1), of op env] assms(3) show ?thesis by blast
qed

theorem factory_panics_only_witness:
  "\<not> authorized (fd_env 40 []) ''ADM'' \<and> factory_call FPausePoolCreation (fd_env 40 []) fd_3 = Trap"
proof -
  have "factory_call FPausePoolCreation (fd_env 40 []) fd_3 = Trap"
    by (simp add: run_simps pause_pool_creation_def)
  with factory_panics_only [OF fd_3_ok fd_3_fields(1) this] show ?thesis by simp
qed

end
