(* ===== verification/Factory_Refinement.thy ===== *)
theory Factory_Refinement
  imports Factory_Creation Factory_Reads
begin

text \<open>
  The factory implements the abstract registry, call by call. \<open>registry_does\<close> says for every entry
  point and answer how the registry after the call follows from the registry before it; the code of
  the factory does exactly this, through \<open>registry_of\<close>.
\<close>

subsection \<open>The specification of the calls\<close>

text \<open>
  The pool of the parameters \<open>p\<close> becomes the last one: its ID is the number of pools so far, its
  address is one that the host gave a deployment of \<open>hash\<close> under the salt of this ID, and its record
  has the parameters and that code.
\<close>

definition rg_creates :: "'w env \<Rightarrow> bytes \<Rightarrow> PoolParams \<Rightarrow> u32 \<Rightarrow> registry \<Rightarrow> registry \<Rightarrow> bool" where
  "rg_creates env hash p i g g' \<longleftrightarrow> unat i = length (rg_pools g) \<and>
     (\<exists>addr w w'. deploy_v2 (host env) w (current_contract env) (pool_salt i) hash = Some (addr, w') \<and>
       g' = rg_register (new_record addr (pp_asset p) (pp_daily_rate p) (pp_global_multiplier p)
         (pp_min_lock_period p) hash) g)"

text \<open>Pool \<open>i\<close> gets the code \<open>hash\<close>, which is not zero and not the one it runs.\<close>

definition rg_upgrades :: "bytes \<Rightarrow> u32 \<Rightarrow> registry \<Rightarrow> registry \<Rightarrow> bool" where
  "rg_upgrades hash i g g' \<longleftrightarrow> unat i < length (rg_pools g) \<and> hash \<noteq> zero_hash \<and>
     hash \<noteq> pr_wasm_hash (rg_pools g ! unat i) \<and> g' = rg_upgrade (unat i) hash g"

text \<open>The value of pool \<open>i\<close> becomes \<open>v\<close>, which the contract at this pool's address answered.\<close>

definition pool_answers :: "'w env \<Rightarrow> registry \<Rightarrow> u32 \<Rightarrow> i128 option \<Rightarrow> bool" where
  "pool_answers env g i a \<longleftrightarrow> unat i < length (rg_pools g) \<and>
     (\<exists>w w'. try_total_staked (host env) w (pr_address (rg_pools g ! unat i)) = (a, w'))"

definition rg_syncs :: "'w env \<Rightarrow> u32 \<Rightarrow> i128 \<Rightarrow> registry \<Rightarrow> registry \<Rightarrow> bool" where
  "rg_syncs env i v g g' \<longleftrightarrow> pool_answers env g i (Some v) \<and> g' = rg_sync (unat i) v g"

text \<open>In a sweep a pool that does not answer keeps its value.\<close>

definition rg_sweeps :: "'w env \<Rightarrow> u32 \<Rightarrow> registry \<Rightarrow> registry \<Rightarrow> bool" where
  "rg_sweeps env i g g' \<longleftrightarrow> (pool_answers env g i None \<and> g' = g) \<or> (\<exists>v. rg_syncs env i v g g')"

text \<open>One change after the other, in the order of a list.\<close>

fun in_order :: "('x \<Rightarrow> 's \<Rightarrow> 's \<Rightarrow> bool) \<Rightarrow> 'x list \<Rightarrow> 's \<Rightarrow> 's \<Rightarrow> bool" where
  "in_order R [] s t \<longleftrightarrow> t = s"
| "in_order R (x # xs) s t \<longleftrightarrow> (\<exists>u. R x s u \<and> in_order R xs u t)"

text \<open>
  What an entry point that returned \<open>v\<close> did to the registry \<open>g\<close>, where \<open>hash\<close> is the deployment hash:
  the six that change it, \<open>initialize\<close>, the four that report on it, and all the others.
\<close>

fun registry_does ::
  "'w env \<Rightarrow> bytes \<Rightarrow> factory_op \<Rightarrow> factory_value \<Rightarrow> registry \<Rightarrow> registry \<Rightarrow> bool" where
  "registry_does env hash (FCreatePool a d m l st) v g g' \<longleftrightarrow>
     (\<exists>i. v = RCount i \<and> rg_creates env hash \<lparr>pp_asset = a, pp_daily_rate = d, pp_global_multiplier = m,
        pp_min_lock_period = l, pp_min_stake_amount = st\<rparr> i g g')"
| "registry_does env hash (FCreatePoolsBatch ps) v g g' \<longleftrightarrow>
     (\<exists>ids. v = RIds ids \<and> ps \<noteq> [] \<and> length ids = length ps \<and>
        in_order (\<lambda>(p, i). rg_creates env hash p i) (zip ps ids) g g')"
| "registry_does env hash (FUpgradePool i h) v g g' \<longleftrightarrow> rg_upgrades h i g g'"
| "registry_does env hash (FUpgradePoolsBatch ids h) v g g' \<longleftrightarrow> in_order (rg_upgrades h) ids g g'"
| "registry_does env hash (FSyncPoolTvl i) v g g' \<longleftrightarrow> (\<exists>x. v = RAmount x \<and> rg_syncs env i x g g')"
| "registry_does env hash (FSyncAllPoolTvls start limit) v g g' \<longleftrightarrow>
     (\<exists>e. v = RCount e \<and> unat e = min (unat start + min (unat limit) 50) (length (rg_pools g)) \<and>
        in_order (rg_sweeps env) (u32_range start e) g g')"
| "registry_does env hash (FInitialize a h) v g g' \<longleftrightarrow> g = empty_registry \<and> g' = empty_registry"
| "registry_does env hash FPoolCount v g g' \<longleftrightarrow> g' = g \<and> (\<exists>n. v = RCount n \<and> unat n = length (rg_pools g))"
| "registry_does env hash (FPoolExists i) v g g' \<longleftrightarrow> g' = g \<and> v = RBool (unat i < length (rg_pools g))"
| "registry_does env hash (FGetPool i) v g g' \<longleftrightarrow>
     g' = g \<and> unat i < length (rg_pools g) \<and> v = RRecord (rg_pools g ! unat i)"
| "registry_does env hash (FPoolTvlSynced i) v g g' \<longleftrightarrow>
     g' = g \<and> unat i < length (rg_pools g) \<and> v = RAmount (rg_tvls g ! unat i)"
| "registry_does env hash op v g g' \<longleftrightarrow> g' = g"

subsection \<open>The calls that change the registry\<close>

lemma create_pool_inner_rg:
  assumes "factory_ok s" and "create_pool_inner env adm (pp_asset p) (pp_daily_rate p) (pp_global_multiplier p)
      (pp_min_lock_period p) (pp_min_stake_amount p) s = Done i t"
  shows "factory_ok t \<and> fk_WasmHash t = fk_WasmHash s \<and>
    rg_creates env (the (fk_WasmHash s)) p i (registry_of s) (registry_of t)"
  using assms
proof (rule create_pool_inner_ok)
  fix n hash addr w4
  let ?r = "new_record addr (pp_asset p) (pp_daily_rate p) (pp_global_multiplier p) (pp_min_lock_period p) hash"
  assume c: "fk_PoolCount s = Some i" "u32_checked_add i 1 = Some n" "fk_WasmHash s = Some hash"
    and d: "\<exists>w2 w3. deploy_v2 (host env) w2 (current_contract env) (pool_salt i) hash = Some (addr, w3) \<and>
       pool_initialize (host env) w3 addr (new_init_args adm (pp_asset p) (pp_daily_rate p) (pp_global_multiplier p)
         (pp_min_lock_period p) (pp_min_stake_amount p)) = Some w4"
    and t: "core t = pool_added adm (effective_stake (pp_min_stake_amount p)) i n
       (vec_len (asset_ids s i (pp_asset p) @ [i])) ?r w4 (core s)" and ok: "factory_ok t"
  have "registry_of t = rg_register ?r (registry_of s)"
    using c by (simp add: registry_of_core [OF t] registry_of_added)
  moreover have "unat i = length (rg_pools (registry_of s))"
    using c(1) by (simp add: registry_of_def Let_def)
  moreover have "fk_WasmHash t = fk_WasmHash s"
    using core_get(3) [OF t] by (simp add: pool_added_def)
  ultimately show ?thesis
    using d c(3) ok by (auto simp: rg_creates_def)
qed

lemma create_loop_rg:
  assumes "for_each ps acc (\<lambda>p ids. and_then (create_params env adm p) (\<lambda>i. ok (ids @ [i]))) s = Done ids t"
    and "factory_ok s"
  shows "\<exists>is. ids = acc @ is \<and> length is = length ps \<and>
    in_order (\<lambda>(p, i). rg_creates env (the (fk_WasmHash s)) p i) (zip ps is) (registry_of s) (registry_of t)"
  using assms
proof (induction ps arbitrary: acc s)
  case Nil
  then show ?case by (simp add: run_iffs)
next
  case (Cons p ps)
  from Cons.prems(1) obtain i u where inner: "create_params env adm p s = Done i u"
    and rest: "for_each ps (acc @ [i]) (\<lambda>p ids. and_then (create_params env adm p) (\<lambda>i. ok (ids @ [i]))) u = Done ids t"
    by (auto simp: run_iffs)
  from create_pool_inner_rg [OF Cons.prems(2) inner [unfolded create_params_def]]
  have u: "factory_ok u" "fk_WasmHash u = fk_WasmHash s"
    "rg_creates env (the (fk_WasmHash s)) p i (registry_of s) (registry_of u)" by blast+
  from Cons.IH [OF rest u(1)] obtain "is" where "ids = (acc @ [i]) @ is" "length is = length ps"
    "in_order (\<lambda>(p, i). rg_creates env (the (fk_WasmHash s)) p i) (zip ps is) (registry_of u) (registry_of t)"
    unfolding u(2) by blast
  with u(3) show ?case by (intro exI [of _ "i # is"]) auto
qed

lemma upgrade_pool_inner_rg:
  assumes "factory_ok s" and "upgrade_pool_inner env adm i hash s = Done u t"
  shows "factory_ok t \<and> rg_upgrades hash i (registry_of s) (registry_of t)"
  using assms(2)
proof (rule upgrade_pool_inner_Done)
  fix r w2
  assume r: "fk_Pool s i = Some r" "hash \<noteq> pr_wasm_hash r" "hash \<noteq> zero_hash"
    and t: "core t = pool_upgraded i r hash w2 (core s)"
  from assms(1) r(1) obtain n where at: "fk_PoolCount s = Some n" "i < n" "rg_pools (registry_of s) ! unat i = r"
    "unat i < length (rg_pools (registry_of s))" by (rule registry_at)
  then have "registry_of t = rg_upgrade (unat i) hash (registry_of s)"
    using r(1) by (simp add: registry_of_core [OF t] registry_of_upgraded)
  moreover have "factory_ok t"
    unfolding factory_ok_eq [OF t] using assms(1) r by (intro pool_upgraded_ok) (simp_all add: factory_ok_core)
  ultimately show ?thesis
    using r at by (simp add: rg_upgrades_def)
qed

lemma upgrade_loop_rg:
  "for_each ids () (\<lambda>i _. upgrade_pool_inner env adm i hash) s = Done u t \<Longrightarrow> factory_ok s \<Longrightarrow>
     in_order (rg_upgrades hash) ids (registry_of s) (registry_of t)"
proof (induction ids arbitrary: s)
  case (Cons i ids)
  from Cons.prems(1) obtain u' where inner: "upgrade_pool_inner env adm i hash s = Done () u'"
    and rest: "for_each ids () (\<lambda>i _. upgrade_pool_inner env adm i hash) u' = Done u t"
    by (auto simp: run_iffs)
  from upgrade_pool_inner_rg [OF Cons.prems(2) inner] Cons.IH [OF rest] show ?case by auto
qed (simp add: run_iffs)

lemma apply_tvl_sync_rg:
  assumes "factory_ok s" and "fk_Pool s i = Some r" and "apply_tvl_sync env i (pr_address r) s = Done v t"
  shows "factory_ok t \<and> rg_syncs env i v (registry_of s) (registry_of t)"
proof -
  from apply_tvl_sync_Done [OF assms(3)] obtain w where
    call: "try_total_staked (host env) (f_world s) (pr_address r) = (Some v, w)" and
    t: "core t = tvl_synced i v ((core s)\<lparr>f_world := w\<rparr>)" by blast
  from assms(1,2) obtain n where at: "fk_PoolCount s = Some n" "i < n" "rg_pools (registry_of s) ! unat i = r"
    "unat i < length (rg_pools (registry_of s))" by (rule registry_at)
  have "registry_of t = rg_sync (unat i) v (registry_of s)"
    using at by (simp add: registry_of_core [OF t] registry_of_synced)
  moreover have "factory_ok t"
    unfolding factory_ok_eq [OF t] using assms(1,2) by (intro tvl_synced_ok) (simp_all add: factory_ok_core)
  ultimately show ?thesis
    using at call by (auto simp: rg_syncs_def pool_answers_def)
qed

lemma sweep_one_rg:
  assumes "factory_ok s" and "fk_Pool s i = Some r"
    and "ignore_result (apply_tvl_sync env i (pr_address r)) s = Done u t"
  shows "factory_ok t \<and> rg_sweeps env i (registry_of s) (registry_of t)"
proof (cases "apply_tvl_sync env i (pr_address r) s")
  case (Done v t')
  with assms(3) have "t' = t" by (simp add: ignore_result_def)
  with apply_tvl_sync_rg [OF assms(1,2)] Done show ?thesis by (auto simp: rg_sweeps_def)
next
  case (Fail e t')
  with assms(3) have "t' = t" by (simp add: ignore_result_def)
  with Fail obtain w where w: "try_total_staked (host env) (f_world s) (pr_address r) = (None, w)" "t = s\<lparr>f_world := w\<rparr>"
    by (blast elim: apply_tvl_sync_Fail)
  from assms(1,2) obtain n where "rg_pools (registry_of s) ! unat i = r" "unat i < length (rg_pools (registry_of s))"
    by (rule registry_at)
  with w assms(1) show ?thesis by (auto simp: rg_sweeps_def pool_answers_def)
qed (use assms(3) in \<open>simp add: ignore_result_def\<close>)

lemma u32_range_Cons: "i < e \<Longrightarrow> u32_range i e = i # u32_range (i + 1) e"
  by (simp add: u32_range_def word_less_nat_alt upt_rec [of "unat i"] unat_u32_Suc)

lemma rg_sweeps_length: "rg_sweeps env i g g' \<Longrightarrow> length (rg_pools g') = length (rg_pools g)"
  by (auto simp: rg_sweeps_def rg_syncs_def rg_sync_def)

lemma pool_at:
  assumes "factory_ok s" and "unat i < length (rg_pools (registry_of s))"
  obtains r where "fk_Pool s i = Some r"
proof -
  from assms(1) obtain n where n: "fk_PoolCount s = Some n" by (auto simp: factory_ok_def)
  with assms view_registry(1) [OF assms(1) n] view_registry(2) [OF assms(1) n, of i] show thesis by (simp add: that)
qed

lemma sync_loop_rg:
  assumes "sync_loop env i e s = Done u t" and "factory_ok s" and "unat e \<le> length (rg_pools (registry_of s))"
  shows "in_order (rg_sweeps env) (u32_range i e) (registry_of s) (registry_of t)"
  using assms
proof (induction env i e arbitrary: s rule: sync_loop.induct)
  case (1 env i e)
  show ?case
  proof (cases "i < e")
    case True
    with 1(4) obtain r where r: "fk_Pool s i = Some r"
      using pool_at [OF 1(3), of i] by (auto simp: word_less_nat_alt)
    from 1(2) have "sync_loop env i e s = Done () t" by simp
    with r True obtain u' where u': "ignore_result (apply_tvl_sync env i (pr_address r)) s = Done () u'"
      and rest: "sync_loop env (i + 1) e u' = Done u t"
      by (subst (asm) sync_loop.simps) (auto simp: run_iffs)
    from sweep_one_rg [OF 1(3) r u'] have ok: "factory_ok u'" "rg_sweeps env i (registry_of s) (registry_of u')" by blast+
    with 1(4) have "unat e \<le> length (rg_pools (registry_of u'))" by (simp add: rg_sweeps_length)
    from 1(1) [OF True rest ok(1) this] ok(2) show ?thesis
      by (auto simp: u32_range_Cons [OF True])
  next
    case False
    with 1(2) show ?thesis by (subst (asm) sync_loop.simps) (simp add: run_iffs)
  qed
qed

subsection \<open>The calls that leave it alone\<close>

definition same_registry :: "'w factory \<Rightarrow> 'w factory \<Rightarrow> bool" where
  "same_registry s t \<longleftrightarrow> registry_of t = registry_of s"

interpretation still: frame_relation same_registry
  by unfold_locales (simp_all add: same_registry_def)

lemma same_registryI:
  "fk_PoolCount t = fk_PoolCount s \<Longrightarrow> fk_Pool t = fk_Pool s \<Longrightarrow> fk_PoolTvl t = fk_PoolTvl s \<Longrightarrow> same_registry s t"
  by (simp add: same_registry_def registry_of_def)

lemma still_prims:
  "keeps same_registry (f_extend env k)" "keeps same_registry (f_bump_instance env)" "keeps same_registry (f_publish ev)"
  "keeps same_registry (f_call c)" "keeps same_registry f_require_initialized" "keeps same_registry load_admin"
  "keeps same_registry load_wasm_hash" "keeps same_registry read_upgrade_count"
  "keeps same_registry read_admin_transfer_count" "keeps same_registry read_total_tvl"
  "keeps same_registry (read_pool_tvl i)" "keeps same_registry (require_auth env a)"
  by (rule keepsI, auto simp: run_iffs intro!: same_registryI)+

lemma still_writes:
  "keeps same_registry (modify (\<lambda>s. s\<lparr>fk_Admin := x1\<rparr>))" "keeps same_registry (modify (\<lambda>s. s\<lparr>fk_WasmHash := x3\<rparr>))"
  "keeps same_registry (modify (\<lambda>s. s\<lparr>fk_PoolCreationPaused := x4\<rparr>))"
  "keeps same_registry (modify (\<lambda>s. s\<lparr>fk_AdminTransferCount := x5\<rparr>))"
  "keeps same_registry (f_put env k (\<lambda>s. s\<lparr>fk_AssetPoolCount := (fk_AssetPoolCount s)(a \<mapsto> c)\<rparr>))"
  "keeps same_registry (f_put env k (\<lambda>s. s\<lparr>fk_ApprovedWasmHash := (fk_ApprovedWasmHash s)(h \<mapsto> b)\<rparr>))"
  by (rule keepsI, auto simp: run_iffs intro!: same_registryI)+

lemmas still_rules = still.keeps_rules still_prims still_writes

lemma still_scans:
  "keeps same_registry (scan_asset_index env i e l ids rs n)" "keeps same_registry (scan_registry env a l ids rs n)"
  by (induction ids arbitrary: rs) (auto simp: bump_defs intro!: still_rules)

fun changes_registry :: "factory_op \<Rightarrow> bool" where
  "changes_registry (FCreatePool a d m l st) = True"
| "changes_registry (FCreatePoolsBatch ps) = True"
| "changes_registry (FUpgradePool i h) = True"
| "changes_registry (FUpgradePoolsBatch ids h) = True"
| "changes_registry (FSyncPoolTvl i) = True"
| "changes_registry (FSyncAllPoolTvls start limit) = True"
| "changes_registry op = False"

lemma still_factory_call:
  "\<not> changes_registry op \<Longrightarrow> \<not> is_finitialize op \<Longrightarrow> keeps same_registry (factory_call op env)"
  by (cases op) (simp_all only: factory_call.simps factory_entry_defs bump_defs Let_def returns_def
      publish_pool_gap_def query_pool_tvl_def increment_admin_transfer_count_def
      is_finitialize.simps changes_registry.simps simp_thms,
    (intro still_rules still_scans)+)

subsection \<open>The code against the specification\<close>

lemma bumped_registry [simp]:
  "registry_of (f_bumped env s) = registry_of s" "registry_of (f_extended env k s) = registry_of s"
  by (simp_all add: registry_of_def)

lemma bumped_ok: "factory_ok s \<Longrightarrow> factory_ok (f_bumped env s)" "factory_ok s \<Longrightarrow> factory_ok (f_extended env k s)"
  by (simp_all add: factory_ok_core_eq [of "f_bumped env s" s] factory_ok_core_eq [of "f_extended env k s" s])

lemma factory_changes_rg:
  assumes "factory_ok s" and "changes_registry op" and "factory_call op env s = Done v t"
  shows "registry_does env (the (fk_WasmHash s)) op v (registry_of s) (registry_of t)"
  using assms(2)
proof (cases op rule: changes_registry.cases)
  case (1 a d m l st)
  from assms(3) obtain adm i where "v = RCount i" "create_pool_inner env adm a d m l st s = Done i t"
    by (auto simp: 1 run_iffs create_pool_Done)
  with create_pool_inner_rg [OF assms(1), of env adm "\<lparr>pp_asset = a, pp_daily_rate = d, pp_global_multiplier = m,
      pp_min_lock_period = l, pp_min_stake_amount = st\<rparr>" i t] show ?thesis by (simp add: 1)
next
  case (2 ps)
  from assms(3) obtain adm ids where v: "v = RIds ids" "ps \<noteq> []"
    "for_each ps [] (\<lambda>p ids. and_then (create_params env adm p) (\<lambda>i. ok (ids @ [i]))) s = Done ids t"
    by (auto simp: 2 run_iffs create_pools_batch_def create_params_def [abs_def] validate_factory_admin_def)
  with create_loop_rg [OF v(3) assms(1)] show ?thesis by (auto simp: 2)
next
  case (3 i h)
  from assms(3) obtain adm where "upgrade_pool_inner env adm i h (f_bumped env s) = Done () t"
    by (auto simp: 3 run_iffs upgrade_pool_def validate_factory_admin_def)
  with upgrade_pool_inner_rg [OF bumped_ok(1) [OF assms(1)]] show ?thesis by (simp add: 3)
next
  case (4 ids h)
  from assms(3) obtain adm where
    "for_each ids () (\<lambda>i _. upgrade_pool_inner env adm i h) (f_bumped env s) = Done () t"
    by (auto simp: 4 run_iffs upgrade_pools_batch_def validate_factory_admin_def)
  from upgrade_loop_rg [OF this bumped_ok(1) [OF assms(1)]] show ?thesis by (simp add: 4)
next
  case (5 i)
  from assms(3) obtain r x where r: "v = RAmount x" "fk_Pool s i = Some r"
    "apply_tvl_sync env i (pr_address r) (f_extended env (KPool i) (f_bumped env s)) = Done x t"
    by (auto simp: 5 run_iffs sync_pool_tvl_def bump_pool_def)
  with apply_tvl_sync_rg [OF bumped_ok(2) [OF bumped_ok(1) [OF assms(1)]] _ r(3)] show ?thesis by (simp add: 5)
next
  case (6 start limit)
  from assms(1) obtain n where n: "fk_PoolCount s = Some n" by (auto simp: factory_ok_def)
  define e where "e = min (u32_saturating_add start (min limit MAX_POOL_SCAN_PER_CALL)) n"
  have len: "length (rg_pools (registry_of s)) = unat n" by (rule view_registry(1) [OF assms(1) n])
  from assms(3) n have run: "v = RCount e" "sync_loop env start e (f_bumped env s) = Done () t"
    by (auto simp: 6 run_iffs sync_all_pool_tvls_def e_def Let_def)
  have "unat (min limit 50) = min (unat limit) 50"
    by (simp add: min_def word_le_nat_alt)
  then have "unat e = min (unat start + min (unat limit) 50) (unat n)"
    using unat_u32_less [of n]
    by (auto simp: e_def MAX_POOL_SCAN_PER_CALL_def unat_u32_saturating_add min_def word_le_nat_alt split: if_splits)
  moreover from this have "in_order (rg_sweeps env) (u32_range start e) (registry_of s) (registry_of t)"
    using sync_loop_rg [OF run(2) bumped_ok(1) [OF assms(1)]] by (simp add: len)
  ultimately show ?thesis
    using run(1) by (simp add: 6 len)
qed simp_all

lemma factory_reports_rg:
  assumes "factory_ok s" and "\<not> changes_registry op" and "\<not> is_finitialize op" and "factory_call op env s = Done v t"
  shows "registry_does env (the (fk_WasmHash s)) op v (registry_of s) (registry_of t)"
proof -
  from keepsD [OF still_factory_call [OF assms(2,3)] assms(4)] have same: "registry_of t = registry_of s"
    by (simp add: same_registry_def)
  from assms(1) obtain n where n: "fk_PoolCount s = Some n" by (auto simp: factory_ok_def)
  note view = view_registry [OF assms(1) n]
  from assms(2-4) show ?thesis
    by (cases op) (auto simp: same view n run_iffs pool_count_def pool_exists_def get_pool_def pool_tvl_synced_def
      split: if_splits)
qed

lemma factory_call_rg:
  assumes "factory_inv s" and "factory_call op env s = Done v t"
  shows "registry_does env (the (fk_WasmHash s)) op v (registry_of s) (registry_of t)"
  using assms
proof (cases rule: factory_call_cases)
  case (init a h)
  have "registry_of t = empty_registry"
    unfolding registry_of_core [OF init(5)] by (simp add: initialized_with_def registry_of_def empty_registry_def)
  with init(1) fresh_registry [OF init(2)] show ?thesis by simp
next
  case effects
  then have "\<not> is_finitialize op"
    using assms(2) by (cases op) (auto simp: run_iffs factory_initialize_def dest: factory_ok_admin)
  with factory_changes_rg [OF effects(1) _ assms(2)] factory_reports_rg [OF effects(1) _ _ assms(2)]
  show ?thesis by (cases "changes_registry op") simp_all
qed

text \<open>
  C1. The factory implements the abstract registry, call by call. A factory that was never called has the
  empty registry. In every reachable state, whichever entry point is called and whatever it answers:
  \<open>create_pool\<close> appends one record of its arguments, of the stored deployment hash and of the address
  that the host gave for the salt of the ID it returns, and this ID is the number of pools before;
  \<open>create_pools_batch\<close> does so for its entries in order; \<open>upgrade_pool\<close> replaces the code hash of one
  existing record by a new one that is not zero, and \<open>upgrade_pools_batch\<close> does so in order;
  \<open>sync_pool_tvl\<close> stores for one pool the value it returns, which that pool's contract answered;
  \<open>sync_all_pool_tvls\<close> does so for the positions from its start to the end it returns, except where a pool
  does not answer; \<open>pool_count\<close>, \<open>pool_exists\<close>, \<open>get_pool\<close> and \<open>pool_tvl_synced\<close> report what the registry
  holds; every other call leaves the registry as it is. A call that does not return changes nothing.
\<close>

theorem registry_refinement:
  assumes "reach factory_fresh (factory_step (host env) (current_contract env)) s"
  shows "(factory_fresh s \<longrightarrow> registry_of s = empty_registry) \<and>
    (case invoke (factory_call op env) s of
       (Returned v, t) \<Rightarrow> registry_does env (the (fk_WasmHash s)) op v (registry_of s) (registry_of t)
     | (_, t) \<Rightarrow> t = s)"
proof
  show "factory_fresh s \<longrightarrow> registry_of s = empty_registry" by (simp add: fresh_registry)
  have "factory_inv s" by (rule factory_wf.reach_invariant [OF assms])
  then show "case invoke (factory_call op env) s of
       (Returned v, t) \<Rightarrow> registry_does env (the (fk_WasmHash s)) op v (registry_of s) (registry_of t)
     | (_, t) \<Rightarrow> t = s"
    by (cases "factory_call op env" s rule: invoke_cases) (simp_all add: factory_call_rg)
qed

theorem registry_refinement_witness:
  "\<exists>addr. registry_of fd_3 = rg_register (new_record addr ''USD'' 40000 1 50 fd_hash) (registry_of fd_2) \<and>
     rg_pools (registry_of fd_2) = [fd_r1]"
proof -
  let ?op = "FCreatePool ''USD'' 40000 1 50 2000000" and ?env = "fd_env 30 [''ADM'']"
  have "invoke (factory_call ?op ?env) fd_2 = (Returned (RCount 1), fd_3)"
    using fd_create2 by (simp add: invoke_def run_simps)
  with registry_refinement [where env = ?env and op = ?op and s = fd_2] fd_reach(2)
  have "rg_creates ?env fd_hash \<lparr>pp_asset = ''USD'', pp_daily_rate = 40000, pp_global_multiplier = 1,
      pp_min_lock_period = 50, pp_min_stake_amount = 2000000\<rparr> 1 (registry_of fd_2) (registry_of fd_3)"
    by simp
  then show ?thesis
    by (auto simp: rg_creates_def registry_of_def [of fd_2] u32_range_def Let_def)
qed

end
