(* ===== verification/Pool_Types.thy ===== *)
theory Pool_Types
  imports Vesting Factory_State
begin

text \<open>
  The data of the farming pool, soroban/contracts/farming-pool/src/types.rs, and the error codes of
  the three contracts. The pool's operations are not part of the repository, so there is no model of
  them: the pool is behind the \<open>'w host\<close> of Soroban.thy.
\<close>

subsection \<open>Errors of the pool\<close>

datatype PoolError =
    PAlreadyInitialized | PNotInitialized | PInvalidCreditRate | PInvalidGlobalMultiplier | NotWhitelisted
  | BelowMinimumStake | PInvalidMinStakeAmount | NotPaused | NoActiveStake | PoolPaused | NoPendingAdmin
  | PBatchTooLarge | InvalidAmount | NoActivePosition | PInsufficientBalance | LockPeriodNotElapsed
  | InvalidAllocation | ExceedsMaxStake | InvalidLockPeriod | InvalidStakeToken | TransferAmountMismatch

fun PoolError_code :: "PoolError \<Rightarrow> nat" where
  "PoolError_code PAlreadyInitialized = 1"
| "PoolError_code PNotInitialized = 2"
| "PoolError_code PInvalidCreditRate = 3"
| "PoolError_code PInvalidGlobalMultiplier = 4"
| "PoolError_code NotWhitelisted = 5"
| "PoolError_code BelowMinimumStake = 6"
| "PoolError_code PInvalidMinStakeAmount = 7"
| "PoolError_code NotPaused = 8"
| "PoolError_code NoActiveStake = 9"
| "PoolError_code PoolPaused = 10"
| "PoolError_code NoPendingAdmin = 11"
| "PoolError_code PBatchTooLarge = 12"
| "PoolError_code InvalidAmount = 13"
| "PoolError_code NoActivePosition = 14"
| "PoolError_code PInsufficientBalance = 15"
| "PoolError_code LockPeriodNotElapsed = 16"
| "PoolError_code InvalidAllocation = 17"
| "PoolError_code ExceedsMaxStake = 18"
| "PoolError_code InvalidLockPeriod = 19"
| "PoolError_code InvalidStakeToken = 20"
| "PoolError_code TransferAmountMismatch = 21"

subsection \<open>Positions and settings\<close>

record BoostConfig =
  bc_multiplier :: u32
  bc_allocation_pct :: u32

record UserStake =
  us_amount :: i128
  us_start_ledger :: u32
  us_credits_banked :: i128
  us_credit_rate :: i128
  us_multiplier :: u32

record Position =
  po_amount :: i128
  po_lock_ledger :: u32
  po_unlock_ledger :: u32
  po_checkpoint_ledger :: u32
  po_total_credits :: i128
  po_credit_rate :: i128

record BankedCreditTotals =
  bt_position_credits :: i128
  bt_stake_credits :: i128

text \<open>The storage keys of the pool.\<close>

datatype PoolKey =
    PK_Admin | PK_PendingAdmin | PK_GlobalMultiplier | PK_CreditRate | PK_StakeToken | PK_MinLockPeriod
  | PK_SchemaVersion | PK_Paused | PK_PausedStaking | PK_PausedWithdrawals | PK_GlobalMultiplierChangeLedger
  | PK_UserBoost address | PK_UserStake address | PK_UserPosition address | PK_BankedCredits address
  | PK_WhitelistEnabled | PK_Whitelisted address | PK_WhitelistedUsers | PK_MinStakeAmount | PK_TotalStaked
  | PK_TotalDistributedCredits | PK_StakedUserCount | PK_LockCount | PK_UnstakeCount | PK_TotalCredits
  | PK_EmergencyWithdrawalCount | PK_ActiveStakeCount | PK_CreditRateChangeCount | PK_BoostCount
  | PK_TotalLocked | PK_TotalDeposits | PK_TotalWithdrawals | PK_TotalBoostAlloc | PK_BoostUserCount
  | PK_TotalBankedCredits | PK_TotalCreditsEarned address | PK_StakedUsers | PK_LockedUsers
  | PK_WhitelistEventCount | PK_WhitelistHistory u32 | PK_BoostEventCount | PK_BoostHistory u32
  | PK_StakeEventCount | PK_StakeHistory u32 | PK_AdminActionCount | PK_AdminActionHistory u32
  | PK_CreditRateEventCount | PK_CreditRateHistory u32 | PK_GlobalMultiplierEventCount
  | PK_GlobalMultiplierHistory u32 | PK_UserLastActivity address | PK_UserActivityCount address
  | PK_UserTier address | PK_UserTierPoints address | PK_TierUserCount u32 | PK_DistributionEventCount
  | PK_DistributionHistory u32 | PK_TotalDistributedRewards | PK_AverageLockDuration | PK_PeakTotalStaked
  | PK_UniqueUserCount

subsection \<open>Answers of the pool's reads\<close>

record ListWhitelistedResponse =
  lw_users :: "address list"
  lw_total :: u32

record PoolInfo =
  pi_total_staked :: i128
  pi_total_banked_credits :: i128
  pi_total_distributed_credits :: i128
  pi_credit_rate :: i128
  pi_global_multiplier :: u32
  pi_min_lock_period :: u32
  pi_min_stake_amount :: i128
  pi_is_paused :: bool

record UserSummary =
  um_staked_amount :: i128
  um_locked_amount :: i128
  um_total_credits :: i128
  um_boost_allocation :: u32
  um_is_whitelisted :: bool
  um_unlock_ledger :: u32

record UserActivity =
  ua_last_activity_ledger :: u32
  ua_activity_count :: u32
  ua_activity_span :: u32

record TierInfo =
  ti_tier_level :: u32
  ti_tier_points :: i128
  ti_reward_multiplier :: u32

record PoolAnalytics =
  pa_average_lock_duration :: u32
  pa_peak_total_staked :: i128
  pa_unique_user_count :: u32
  pa_tvl_ratio :: u64

subsection \<open>History\<close>

record WhitelistEvent =
  we_user :: address
  we_added :: bool
  we_ledger :: u32

record BoostEvent =
  be_user :: address
  be_old_allocation :: u32
  be_new_allocation :: u32
  be_ledger :: u32

record StakeEvent =
  se_user :: address
  se_action :: string
  se_amount :: i128
  se_ledger :: u32

record AdminActionEvent =
  ae_action :: string
  ae_admin :: address
  ae_ledger :: u32

record CreditRateEvent =
  ce_old_rate :: i128
  ce_new_rate :: i128
  ce_ledger :: u32

record GlobalMultiplierEvent =
  ge_old_multiplier :: u32
  ge_new_multiplier :: u32
  ge_ledger :: u32

record DistributionEvent =
  de_user_count :: u32
  de_total_amount :: i128
  de_admin :: address
  de_ledger :: u32

record WhitelistHistoryPage =
  wp_events :: "WhitelistEvent list"
  wp_total :: u32

record BoostHistoryPage =
  bp_events :: "BoostEvent list"
  bp_total :: u32

record StakeHistoryPage =
  sp_events :: "StakeEvent list"
  sp_total :: u32

record AdminActionHistoryPage =
  ap_events :: "AdminActionEvent list"
  ap_total :: u32

record CreditRateHistoryPage =
  cp_events :: "CreditRateEvent list"
  cp_total :: u32

record GlobalMultiplierHistoryPage =
  gp_events :: "GlobalMultiplierEvent list"
  gp_total :: u32

record DistributionHistoryPage =
  dp_events :: "DistributionEvent list"
  dp_total :: u32

subsection \<open>Error codes\<close>

text \<open>
  The codes of the wallet and of the pool are pairwise different. Those of the factory are not: the
  source gives \<open>EmptyBatch\<close> and \<open>BatchTooLarge\<close> the code 20.
\<close>

lemma inj_VestingError_code: "inj VestingError_code"
proof (rule injI)
  fix e f
  show "VestingError_code e = VestingError_code f \<Longrightarrow> e = f" by (cases e; cases f) simp_all
qed

lemma inj_PoolError_code: "inj PoolError_code"
proof (rule injI)
  fix e f
  show "PoolError_code e = PoolError_code f \<Longrightarrow> e = f" by (cases e; cases f) simp_all
qed

lemma batch_error_codes: "FactoryError_code EmptyBatch = FactoryError_code BatchTooLarge"
  by simp

end
