(* ===== verification/Spec2Isabelle.thy ===== *)
theory Spec2Isabelle
  imports Vesting_Estate Factory_Integrity Factory_Queries Factory_Panics Factory_Refinement Pool_Types
begin

text \<open>
  Verification of the SmartDrop contracts (soroban/contracts).

  \<^bold>\<open>The program.\<close> Three Soroban contracts and two families of mock tokens, in Rust.

  \<^item> The \<^emph>\<open>factory\<close> (factory/src/lib.rs, types.rs) deploys farming pools and keeps the registry of
    them: the record of each pool by ID, per-asset, per-admin and per-code-hash indexes, the sum of
    the values locked in the pools, a pause flag for creation, and paged listings.
  \<^item> The \<^emph>\<open>vesting wallet\<close> (vesting-wallet/src/lib.rs, types.rs) holds a grant of tokens and pays it
    out linearly after a cliff; an admin may revoke it or withdraw in an emergency.
  \<^item> The \<^emph>\<open>farming pool\<close> (farming-pool/src/types.rs) is present with its types only. The factory
    deploys and calls it; the mock tokens (mock_fee_token.rs, mock_reentrant_token.rs) were written to
    test it.

  \<^bold>\<open>How it is modelled.\<close> A contract function is a state transformer with three outcomes, \<open>Done\<close>, \<open>Fail\<close>
  with a typed error and \<open>Trap\<close> (\<open>Prelude\<close>); \<open>?\<close> is \<open>and_then\<close>, an early return is \<open>ensure\<close>, a panic or
  a failed \<open>require_auth\<close> is \<open>Trap\<close>, and \<open>invoke\<close> rolls back everything unless the outcome is \<open>Done\<close>.
  Machine integers keep their width: \<open>u32\<close>, \<open>u64\<close>, \<open>u128\<close> are words, \<open>i128\<close> is an integer with its
  range and every checked, saturating or trapping operation written out. The state of a contract is
  one record with a field per storage key, the live-until ledgers, the events published and the
  outside world \<open>'w\<close>. Everything outside the repository is a parameter (\<open>Soroban\<close>): the record
  \<open>'w host\<close> holds the token, deployment, pool and time-to-live calls, and \<open>'w env\<close> one invocation.

  \<^bold>\<open>The theories.\<close>

  \<^item> \<open>Prelude\<close>: integers, the outcome type, loops, \<open>keeps\<close> and the locale \<open>frame_relation\<close>, the
    collections \<open>run_simps\<close> (evaluation) and \<open>run_iffs\<close> (inversion).
  \<^item> \<open>Soroban\<close>: the host, authorization, the locales \<open>sep41_token\<close> and \<open>paying_token\<close>.
  \<^item> \<open>Transition\<close>: reachability, the locales \<open>inductive_invariant\<close> and \<open>simulation\<close>.
  \<^item> \<open>Vesting\<close>: the wallet, one definition per function of its lib.rs. \<open>Vesting_Proofs\<close>: the
    invariant \<open>wallet_ok\<close> and a closed form of each entry point. \<open>Vesting_Machine\<close>: the wallet with
    ledger time and an environment, and the custody locales under which it is solvent.
    \<open>Vesting_Books\<close>: the locale \<open>wallet_property\<close> (what every atomic step of the wallet keeps), its instance
    that reads the wallet's counters off its event log, and the abstract \<open>grant\<close> the wallet refines.
    \<open>Mock_Tokens\<close>: the mock tokens; the fee token without a fee interprets the custody locales.
    \<open>Vesting_Properties\<close>: the properties of the wallet and the tokens. \<open>Vesting_Estate\<close>: any number of wallets
    over one token (locale \<open>wallet_estate\<close>), each of them simulated by a wallet alone.
  \<^item> \<open>Factory_State\<close> and \<open>Factory\<close>: the factory's data, helpers and entry points, one definition per
    function of its lib.rs, loops with \<open>break\<close> as recursive functions (\<open>insert_position\<close>,
    \<open>scan_asset_index\<close>, \<open>scan_registry\<close>) and the \<open>while\<close> loop of the sweep as \<open>sync_loop\<close> with its
    termination proof. No function uses fuel.
  \<^item> \<open>Factory_Proofs\<close>: \<open>core\<close> (the factory without times to live), the effect of creation and upgrade,
    the invariant \<open>factory_ok\<close>. \<open>Factory_Machine\<close>: the atomic effects \<open>f_effect\<close>, every call as a
    sequence of them, the machine \<open>factory_step\<close> and its invariant, and the locale \<open>effect_property\<close>:
    what every effect keeps holds in every reachable state.
  \<^item> \<open>Registry\<close>: the abstract registry, that no effect takes a pool back, the events each effect publishes.
    \<open>Factory_Refinement\<close>: the specification \<open>registry_does\<close> of every entry point by its answer and by the
    registry before and after it, and the proof that the code meets it.
    \<open>Factory_Log\<close>: two instances of \<open>effect_property\<close>, the replay of the storage from the events and the
    content of the code-hash index. \<open>Factory_Guarantees\<close>: the locale \<open>registry_property\<close>, a further case of
    \<open>effect_property\<close>, with its two interpretations, the sum of the values and the addresses.
    \<open>Factory_Listing\<close>: what a page contains, the locale \<open>pager\<close> and its two interpretations, sorting. \<open>Factory_Ttl\<close>: times to live.
  \<^item> \<open>Factory_Demo\<close>: a concrete host and a factory with two pools, on which the properties are applied.
    \<open>Factory_Creation\<close>, \<open>Factory_Integrity\<close>, \<open>Factory_Upkeep\<close>, \<open>Factory_Queries\<close>: the properties.
    \<open>Factory_Reads\<close>: the reads as functions of the abstract registry (\<open>factory_view\<close>). \<open>Factory_Panics\<close>: when a
    call can trap.
  \<^item> \<open>Pool_Types\<close>: the pool's data and the error codes of the three contracts.

  \<^bold>\<open>What is shown.\<close>

  \<^item> Factory, over every interleaving of calls by anybody: the registry is well-formed and gapless,
    every call does to it what the specification of the abstract registry says and no pool is ever taken
    back, its storage can be rebuilt from the events, its total is
    the sum of its parts, the code-hash index lists exactly the
    upgraded pools, and two pools never share an address; without the admin's authorization none of it
    changes, and a pause stops all creation; it is initialized once, and a handover locks out everybody
    but the new admin.
  \<^item> Factory, single calls: exactly when a creation succeeds, with which error it is refused and when it
    traps, what it writes; every read answers as its specification over the abstract registry; no call
    panics for a reason of its own state (but for one counter at its maximum); a batch of creations does
    what its entries do one by one, a batch of upgrades changes all its pools or none; a keeper that
    follows the sweep window by window reaches the end of the registry within \<open>pool_count\<close> windows of
    any positive size and leaves the total current; rates are rounded up exactly; paged reads are complete
    and the sorted read is a rearrangement; no call shortens a time to live.
  \<^item> Wallet: the schedule and its monotonicity, the refinement of the abstract grant, the counters as the
    sums of the logged payments, the invariant, solvency with a lawful token, that the
    beneficiary can always claim, every branch of \<open>release\<close>, how \<open>revoke\<close> splits the grant, that an
    emergency withdrawal ends it, who may do what, when a call panics, and that the reads agree, with the
    one that does not (\<open>releasable\<close> after an emergency withdrawal).
  \<^item> Wallets and token together, below: any number of wallets over one token do not harm each other.
  \<^item> Gaps: a fee-on-transfer token leaves the wallet underfunded, an upgrade to an unapproved hash
    succeeds, created pools are missing from the code-hash index, two factory errors share a code.

  \<^bold>\<open>Hypotheses on the host.\<close> \<open>ttl_host\<close> (\<open>extend_ttl\<close> never shortens and reaches its target),
  \<open>tvl_bounded\<close> (a pool answers with an amount in \<open>0 ..< 2 ^ 95\<close>; fewer than \<open>2 ^ 32\<close> of them stay within
  \<open>i128\<close>), \<open>deploys_at\<close> with an injective address function,
  \<open>pure_queries\<close> and \<open>pure_views\<close> (a view changes nothing), and the token locales for the wallets. Each is shown to hold of a concrete host.

  \<^bold>\<open>Not modelled.\<close> The operations of the farming pool (the repository has no lib.rs for that crate);
  archival and restoration of expired entries, fees and footprints of the host; the XDR encoding of
  values; the tests, deployment scripts and documentation. Calls out of a contract return a new
  outside world and never re-enter the caller, as the host guarantees. The source of
  \<open>create_pools_batch\<close> leaves the block of its first guard open; the model closes it after the return.
\<close>

subsection \<open>Wallets and their token together\<close>

text \<open>
  C12. Wallets that share a token are independent. In a system of any number of vesting wallets over one
  lawful token, with every interleaving of their calls, of ledgers and of outside events, each wallet
  runs as a wallet alone would in an environment that never takes from it; so what was shown of a
  single wallet holds of each, and every one holds at least what it owes, whatever the others pay,
  return or withdraw.
\<close>

theorem wallets_share_token:
  assumes "wallet_estate invar bal h tok D outside"
    and "reach (estate_start (\<lambda>w. invar w \<and> (\<forall>a \<in> D. 0 \<le> bal w a)) D) (estate_step h D outside) e" and "a \<in> D"
  shows "reach (vsys_start (\<lambda>w. invar w \<and> 0 \<le> bal w a)) (vsys_step h a (\<lambda>w w'. invar w \<longrightarrow> invar w' \<and> bal w a \<le> bal w' a))
      (wallet_view a e) \<and>
    (vk_Beneficiary (wallet_at e a) \<noteq> None \<and> vk_Token (wallet_at e a) = Some tok \<longrightarrow>
      w_owed (wallet_at e a) \<le> bal (es_world e) a)"
proof -
  have "wallet_estate.funded invar bal D = (\<lambda>w. invar w \<and> (\<forall>a \<in> D. 0 \<le> bal w a))"
    by (rule ext) (rule wallet_estate.funded_def [OF assms(1)])
  note run = assms(2) [folded this]
  have "wallet_custody.holds invar bal a = (\<lambda>w. invar w \<and> 0 \<le> bal w a)"
    by (rule ext) (rule wallet_custody.holds_def [OF wallet_estate.rely_custody [OF assms(1)]])
  moreover have "wallet_estate.rely invar bal a = (\<lambda>w w'. invar w \<longrightarrow> invar w' \<and> bal w a \<le> bal w' a)"
    by (intro ext) (rule wallet_estate.rely_def [OF assms(1)])
  ultimately show ?thesis
    using wallet_estate.reach_view [OF assms(1) run assms(3)] wallet_estate.estate_solvent [OF assms(1) run assms(3)] by simp
qed

theorem wallets_share_token_witness:
  "w_owed (wallet_at (demo_estate demo_wallet) ''WALLET'') \<le> fee_bal (es_world (demo_estate demo_wallet)) ''WALLET''"
proof -
  have "''WALLET'' \<in> demo_addresses" by (simp add: demo_addresses_def)
  from wallets_share_token [OF fee_estate.wallet_estate_axioms demo_estate_reach this]
  show ?thesis by (simp add: wallet_at_def demo_estate_def)
qed

end
